theory Spec2Isabelle
  imports Complex_Main
begin

section \<open>JavaScript values used by the detection code\<close>

text \<open>
  Numbers are modelled as \<^typ>\<open>real\<close> (IEEE rounding, infinities and NaN are outside the
  model). Strings are \<^typ>\<open>string\<close>: a list of code units, restricted to the code units
  below 256 (Latin-1), on which the builtins below agree with ECMAScript.
\<close>

definition isWhiteSpace :: "char \<Rightarrow> bool" where
  \<comment> \<open>the regular expression class \<open>\s\<close> and the characters removed by \<open>trim\<close>: TAB, LF, VT, FF, CR, SP, NBSP\<close>
  "isWhiteSpace c = (let n = (of_char c :: nat) in (9 \<le> n \<and> n \<le> 13) \<or> n = 32 \<or> n = 160)"

definition trim :: "string \<Rightarrow> string" where
  "trim s = rev (dropWhile isWhiteSpace (rev (dropWhile isWhiteSpace s)))"

definition isUpperCase :: "char \<Rightarrow> bool" where
  \<comment> \<open>A-Z, and the Latin-1 capitals 0xC0-0xDE except the multiplication sign 0xD7\<close>
  "isUpperCase c = (let n = (of_char c :: nat) in
     (65 \<le> n \<and> n \<le> 90) \<or> (192 \<le> n \<and> n \<le> 222 \<and> n \<noteq> 215))"

definition toLowerChar :: "char \<Rightarrow> char" where
  \<comment> \<open>the lower-case letter is 32 code units above the capital: bit 5 is set\<close>
  "toLowerChar c =
     (if isUpperCase c
      then (case c of Char b0 b1 b2 b3 b4 b5 b6 b7 \<Rightarrow> Char b0 b1 b2 b3 b4 True b6 b7)
      else c)"

definition toLowerCase :: "string \<Rightarrow> string" where
  "toLowerCase s = map toLowerChar s"

fun splitLoop :: "bool \<Rightarrow> string \<Rightarrow> string \<Rightarrow> string list" where
  "splitLoop inSep cur [] = [cur]"
| "splitLoop inSep cur (c # cs) =
     (if isWhiteSpace c
      then (if inSep then splitLoop True [] cs else cur # splitLoop True [] cs)
      else splitLoop False (cur @ [c]) cs)"

definition split_ws :: "string \<Rightarrow> string list" where
  \<comment> \<open>\<open>s.split(/\s+/)\<close>: the pieces between maximal runs of white space; \<open>''''\<close> gives \<open>['''']\<close>\<close>
  "split_ws s = splitLoop False [] s"

definition substring :: "string \<Rightarrow> nat \<Rightarrow> nat \<Rightarrow> string" where
  \<comment> \<open>\<open>s.substring(a, b)\<close>: both indices are clamped to the length, and swapped when \<open>a > b\<close>\<close>
  "substring s a b =
     (let a' = min a (length s); b' = min b (length s);
          from = min a' b'; to = max a' b'
      in take (to - from) (drop from s))"

definition indexOf :: "string \<Rightarrow> string \<Rightarrow> nat \<Rightarrow> nat option" where
  \<comment> \<open>\<open>s.indexOf(t, pos)\<close>; \<open>None\<close> is the result \<open>-1\<close>\<close>
  "indexOf s t pos =
     find (\<lambda>k. take (length t) (drop k s) = t) [min pos (length s) ..< Suc (length s)]"

definition str_includes :: "string \<Rightarrow> string \<Rightarrow> bool" where
  "str_includes s t = (indexOf s t 0 \<noteq> None)"

fun insort_cmp :: "('a \<Rightarrow> 'a \<Rightarrow> real) \<Rightarrow> 'a \<Rightarrow> 'a list \<Rightarrow> 'a list" where
  "insort_cmp cmp a [] = [a]"
| "insort_cmp cmp a (b # bs) =
     (if cmp a b \<le> 0 then a # b # bs else b # insort_cmp cmp a bs)"

definition Array_sort :: "('a \<Rightarrow> 'a \<Rightarrow> real) \<Rightarrow> 'a list \<Rightarrow> 'a list" where
  \<comment> \<open>the stable sort, as an insertion sort. It is the result of \<open>[...xs].sort(cmp)\<close> whenever
      \<open>cmp\<close> is a consistent comparison function for the elements of \<open>xs\<close>: ECMAScript fixes
      the result there (lemma \<open>conforming_consistent\<close>). The comparator of
      \<open>deduplicateEntities\<close> is consistent for every input (lemma \<open>confidence_consistent\<close>).\<close>
  "Array_sort cmp xs = foldr (insort_cmp cmp) xs []"

definition consistent :: "('a \<Rightarrow> 'a \<Rightarrow> real) \<Rightarrow> 'a set \<Rightarrow> bool" where
  \<comment> \<open>ECMAScript, Array.prototype.sort: \<open>cmp\<close> is a consistent comparison function for the
      values \<open>S\<close>\<close>
  "consistent cmp S =
     (\<forall>a\<in>S. \<forall>b\<in>S. \<forall>c\<in>S.
        cmp a a = 0 \<and> (cmp a b = 0 \<longrightarrow> cmp b a = 0) \<and>
        (cmp a b = 0 \<and> cmp b c = 0 \<longrightarrow> cmp a c = 0) \<and>
        (cmp a b < 0 \<and> cmp b c < 0 \<longrightarrow> cmp a c < 0) \<and>
        (cmp a b > 0 \<and> cmp b c > 0 \<longrightarrow> cmp a c > 0))"

type_synonym 'a array_sort = "('a \<Rightarrow> 'a \<Rightarrow> real) \<Rightarrow> 'a list \<Rightarrow> 'a list"

definition conforming :: "'a array_sort \<Rightarrow> bool" where
  \<comment> \<open>what ECMAScript requires of the engine's \<open>[...xs].sort(cmp)\<close>: the result holds the
      elements of \<open>xs\<close>, each as often as \<open>xs\<close> does; when \<open>cmp\<close> is consistent for them, the
      result is sorted and elements that compare equal keep their order (the sort is
      stable). For any other comparator the order is left to the engine. The comparator of
      \<open>mergeAdjacentZones\<close> is not consistent for every input (its 5px tolerance on Y is not
      transitive, lemma \<open>zoneCompare_not_consistent\<close>), so that function takes the engine's
      sort as a parameter.\<close>
  "conforming engineSort =
     (\<forall>cmp xs.
        (\<forall>z. count_list (engineSort cmp xs) z = count_list xs z) \<and>
        (consistent cmp (set xs) \<longrightarrow>
           sorted_wrt (\<lambda>a b. cmp a b \<le> 0) (engineSort cmp xs) \<and>
           (\<forall>a\<in>set xs. filter (\<lambda>y. cmp y a = 0) (engineSort cmp xs) =
                        filter (\<lambda>y. cmp y a = 0) xs)))"

definition Math_min :: "real list \<Rightarrow> real" where
  \<comment> \<open>\<open>Math.min(...xs)\<close>. With no argument JavaScript gives \<open>Infinity\<close>, which is outside the
      number model: the value is left unspecified there, and every call of the source
      passes at least one argument.\<close>
  "Math_min xs = Min (set xs)"

definition Math_max :: "real list \<Rightarrow> real" where
  "Math_max xs = Max (set xs)"

section \<open>types.ts\<close>

datatype PIIType =
  AADHAAR | PAN | CREDIT_CARD | PHONE | NAME | ADDRESS | MEDICAL | EMAIL | DOB | SENSITIVE

fun PIIType_string :: "PIIType \<Rightarrow> string" where
  "PIIType_string AADHAAR = ''AADHAAR''"
| "PIIType_string PAN = ''PAN''"
| "PIIType_string CREDIT_CARD = ''CREDIT_CARD''"
| "PIIType_string PHONE = ''PHONE''"
| "PIIType_string NAME = ''NAME''"
| "PIIType_string ADDRESS = ''ADDRESS''"
| "PIIType_string MEDICAL = ''MEDICAL''"
| "PIIType_string EMAIL = ''EMAIL''"
| "PIIType_string DOB = ''DOB''"
| "PIIType_string SENSITIVE = ''SENSITIVE''"

record BoundingBox =
  bbox_x :: real
  bbox_y :: real
  bbox_w :: real
  bbox_h :: real
  bbox_pageIndex :: int

text \<open>The \<open>id\<close> of an entity is a prefix of \<open>crypto.randomUUID()\<close>; it is left out of the record.\<close>

record DetectedEntity =
  e_type :: PIIType
  e_value :: string
  e_confidence :: real
  e_bbox :: BoundingBox
  e_masked :: bool
  e_layer :: nat

record OCRWord =
  w_text :: string
  w_confidence :: real
  w_bbox :: BoundingBox

record SpatialMapEntry =
  sm_text :: string
  sm_left :: real
  sm_top :: real
  sm_width :: real
  sm_height :: real
  sm_pageIndex :: int
  sm_redact :: bool

record RedactionZone =
  z_x :: real
  z_y :: real
  z_w :: real
  z_h :: real
  z_pageIndex :: int
  z_matchedPhrase :: string
  z_matchedWords :: "string list"

section \<open>pipeline.ts: deduplication and the required-field override\<close>

definition boxesOverlap :: "BoundingBox \<Rightarrow> BoundingBox \<Rightarrow> real \<Rightarrow> bool" where
  "boxesOverlap a b threshold =
     (let overlapX = max 0 (min (bbox_x a + bbox_w a) (bbox_x b + bbox_w b) - max (bbox_x a) (bbox_x b));
          overlapY = max 0 (min (bbox_y a + bbox_h a) (bbox_y b + bbox_h b) - max (bbox_y a) (bbox_y b));
          overlapArea = overlapX * overlapY;
          minArea = min (bbox_w a * bbox_h a) (bbox_w b * bbox_h b)
      in minArea > 0 \<and> overlapArea / minArea > threshold)"

fun dedupLoop :: "DetectedEntity list \<Rightarrow> DetectedEntity list \<Rightarrow> DetectedEntity list" where
  "dedupLoop result [] = result"
| "dedupLoop result (entity # rest) =
     (let overlaps = list_ex (\<lambda>existing.
            bbox_pageIndex (e_bbox existing) = bbox_pageIndex (e_bbox entity) \<and>
            boxesOverlap (e_bbox existing) (e_bbox entity) (1/2)) result
      in dedupLoop (if \<not> overlaps then result @ [entity] else result) rest)"

definition deduplicateEntities :: "DetectedEntity list \<Rightarrow> DetectedEntity list" where
  "deduplicateEntities entities =
     dedupLoop [] (Array_sort (\<lambda>a b. e_confidence b - e_confidence a) entities)"

fun markRequired :: "string list \<Rightarrow> DetectedEntity list \<Rightarrow> DetectedEntity list" where
  \<comment> \<open>step 7 of \<open>runDetectionPipeline\<close>: the loop that writes \<open>entity.masked = false\<close>\<close>
  "markRequired requiredFields [] = []"
| "markRequired requiredFields (entity # rest) =
     (if PIIType_string (e_type entity) \<in> set requiredFields
      then entity\<lparr>e_masked := False\<rparr>
      else entity) # markRequired requiredFields rest"

definition mergeLayers ::
  "DetectedEntity list \<Rightarrow> DetectedEntity list \<Rightarrow> DetectedEntity list \<Rightarrow> real \<Rightarrow> string list
     \<Rightarrow> DetectedEntity list" where
  \<comment> \<open>steps 6 and 7 of \<open>runDetectionPipeline\<close>, from the three layers' entity lists\<close>
  "mergeLayers layer1Entities nlpEntities matchingEngineEntities confidenceThreshold requiredFields =
     (let allEntities = layer1Entities @ nlpEntities @ matchingEngineEntities;
          deduped = deduplicateEntities allEntities;
          filtered = filter (\<lambda>e. e_confidence e \<ge> confidenceThreshold) deduped
      in markRequired requiredFields filtered)"

section \<open>pipeline.ts: the retry helper\<close>

datatype thrown = JsError string | Undefined

datatype 'a promise = Resolved 'a | Rejected thrown

fun message :: "thrown \<Rightarrow> string" where
  "message (JsError m) = m"
| "message Undefined = ''undefined''"

fun toError :: "thrown \<Rightarrow> thrown" where
  \<comment> \<open>\<open>err instanceof Error ? err : new Error(String(err))\<close>\<close>
  "toError (JsError m) = JsError m"
| "toError Undefined = JsError ''undefined''"

text \<open>
  \<open>fn k\<close> is the outcome of invocation number \<open>k\<close> of the wrapped function, counted from 0 as
  the loop counts \<open>attempt\<close>. The loop returns the final outcome together with the delays it
  has waited, in order.
\<close>

function withRetryLoop ::
  "(nat \<Rightarrow> 'a promise) \<Rightarrow> int \<Rightarrow> nat \<Rightarrow> real \<Rightarrow> thrown \<Rightarrow> real list \<Rightarrow> 'a promise \<times> real list" where
  "withRetryLoop fn maxRetries attempt delay lastError waited =
     (if int attempt \<le> maxRetries then
        (case fn attempt of
           Resolved v \<Rightarrow> (Resolved v, waited)
         | Rejected err \<Rightarrow>
             if \<not> str_includes (message (toError err)) ''429'' \<or> int attempt \<ge> maxRetries
             then (Rejected (toError err), waited)
             else withRetryLoop fn maxRetries (Suc attempt) (delay * 1.5) (toError err)
                    (waited @ [delay]))
      else (Rejected lastError, waited))"
  by pat_completeness auto
termination
  by (relation "measure (\<lambda>(fn, maxRetries, attempt, delay, lastError, waited). nat (maxRetries + 1 - int attempt))") auto

declare withRetryLoop.simps [simp del]

definition withRetry :: "(nat \<Rightarrow> 'a promise) \<Rightarrow> int \<Rightarrow> real \<Rightarrow> 'a promise \<times> real list" where
  "withRetry fn maxRetries initialDelayMs = withRetryLoop fn maxRetries 0 initialDelayMs Undefined []"

section \<open>matchingEngine.ts\<close>

definition REDACTION_PADDING :: real where
  "REDACTION_PADDING = 5"

definition buildSpatialMap :: "OCRWord list \<Rightarrow> int \<Rightarrow> SpatialMapEntry list" where
  \<comment> \<open>\<open>bbox.pageIndex\<close> is declared a number, so \<open>w.bbox.pageIndex ?? pageIndex\<close> is the word's own page\<close>
  "buildSpatialMap words pageIndex =
     map (\<lambda>w. \<lparr>sm_text = w_text w, sm_left = bbox_x (w_bbox w), sm_top = bbox_y (w_bbox w),
                sm_width = bbox_w (w_bbox w), sm_height = bbox_h (w_bbox w),
                sm_pageIndex = bbox_pageIndex (w_bbox w), sm_redact = False\<rparr>) words"

definition isLowerAlnum :: "char \<Rightarrow> bool" where
  "isLowerAlnum c = (let n = (of_char c :: nat) in (97 \<le> n \<and> n \<le> 122) \<or> (48 \<le> n \<and> n \<le> 57))"

definition clean :: "string \<Rightarrow> string" where
  \<comment> \<open>\<open>s.toLowerCase().replace(/[^a-z0-9\u0900-\u097F]/g, '')\<close>; the Devanagari block has no
      code unit below 256\<close>
  "clean s = filter isLowerAlnum (toLowerCase s)"

fun partitionForbidden ::
  "string list \<Rightarrow> string list \<Rightarrow> (string \<times> string list) list
     \<Rightarrow> string list \<times> (string \<times> string list) list" where
  \<comment> \<open>\<open>singleWords\<close> (a set, read by membership only) and \<open>multiPhrases\<close> as pairs
      \<open>(original, tokens)\<close>\<close>
  "partitionForbidden [] singleWords multiPhrases = (singleWords, multiPhrases)"
| "partitionForbidden (phrase # rest) singleWords multiPhrases =
     (let tokens = filter (\<lambda>t. length t > 0) (split_ws (trim phrase));
          cleanedTokens = filter (\<lambda>t. length t > 0) (map clean tokens)
      in if length cleanedTokens = 0 then partitionForbidden rest singleWords multiPhrases
         else if length cleanedTokens = 1
         then partitionForbidden rest (singleWords @ [cleanedTokens ! 0]) multiPhrases
         else partitionForbidden rest singleWords (multiPhrases @ [(trim phrase, cleanedTokens)]))"

definition slice :: "'a list \<Rightarrow> nat \<Rightarrow> nat \<Rightarrow> 'a list" where
  \<comment> \<open>\<open>xs.slice(i, j)\<close> for \<open>0 \<le> i\<close> and \<open>0 \<le> j\<close>\<close>
  "slice xs i j = take (j - i) (drop i xs)"

definition allMatch :: "SpatialMapEntry list \<Rightarrow> string list \<Rightarrow> nat \<Rightarrow> bool" where
  \<comment> \<open>the inner loop over \<open>j\<close>, for a window that lies inside the map\<close>
  "allMatch spatialMap tokens i =
     list_all (\<lambda>j. clean (sm_text (spatialMap ! (i + j))) = tokens ! j) [0 ..< length tokens]"

definition zoneOf :: "SpatialMapEntry list \<Rightarrow> string \<Rightarrow> int \<Rightarrow> RedactionZone" where
  \<comment> \<open>the zone pushed for the matched entries; \<open>pageIndex\<close> is that of the first of them\<close>
  "zoneOf matched original pageIndex =
     (let minLeft = Math_min (map sm_left matched);
          minTop = Math_min (map sm_top matched);
          maxRight = Math_max (map (\<lambda>e. sm_left e + sm_width e) matched);
          maxBottom = Math_max (map (\<lambda>e. sm_top e + sm_height e) matched)
      in \<lparr>z_x = minLeft - REDACTION_PADDING,
          z_y = minTop - REDACTION_PADDING,
          z_w = (maxRight - minLeft) + REDACTION_PADDING * 2,
          z_h = (maxBottom - minTop) + REDACTION_PADDING * 2,
          z_pageIndex = pageIndex,
          z_matchedPhrase = original,
          z_matchedWords = map sm_text matched\<rparr>)"

fun markRedact :: "SpatialMapEntry list \<Rightarrow> nat list \<Rightarrow> SpatialMapEntry list" where
  \<comment> \<open>\<open>spatialMap[k].redact = true\<close> for each index of the list\<close>
  "markRedact spatialMap [] = spatialMap"
| "markRedact spatialMap (k # ks) =
     markRedact (spatialMap[k := (spatialMap ! k)\<lparr>sm_redact := True\<rparr>]) ks"

definition exactStep ::
  "string list \<Rightarrow> string \<Rightarrow> nat \<Rightarrow> SpatialMapEntry list \<times> RedactionZone list
     \<Rightarrow> SpatialMapEntry list \<times> RedactionZone list" where
  \<comment> \<open>one iteration of the sliding window, at position \<open>i\<close>\<close>
  "exactStep tokens original i st =
     (let spatialMap = fst st; zones = snd st in
      if allMatch spatialMap tokens i
      then (let matchedEntries = slice spatialMap i (i + length tokens)
            in (markRedact spatialMap [i ..< i + length tokens],
                zones @ [zoneOf matchedEntries original (sm_pageIndex (spatialMap ! i))]))
      else st)"

definition exactPass ::
  "string list \<Rightarrow> string \<Rightarrow> SpatialMapEntry list \<times> RedactionZone list
     \<Rightarrow> SpatialMapEntry list \<times> RedactionZone list" where
  \<comment> \<open>\<open>for (i = 0; i <= spatialMap.length - tokens.length; i++)\<close>\<close>
  "exactPass tokens original st =
     fold (exactStep tokens original) [0 ..< Suc (length (fst st)) - length tokens] st"

fun lookAhead :: "SpatialMapEntry list \<Rightarrow> string list \<Rightarrow> nat list \<Rightarrow> nat list \<Rightarrow> nat \<Rightarrow> nat list" where
  \<comment> \<open>the look-ahead loop over \<open>j\<close>; \<open>matched\<close> holds the indices of the matched entries\<close>
  "lookAhead spatialMap tokens [] matched nextToken = matched"
| "lookAhead spatialMap tokens (j # js) matched nextToken =
     (if nextToken < length tokens
      then (if clean (sm_text (spatialMap ! j)) = tokens ! nextToken
            then lookAhead spatialMap tokens js (matched @ [j]) (Suc nextToken)
            else lookAhead spatialMap tokens js matched nextToken)
      else matched)"

definition ceil_ratio :: "nat \<Rightarrow> nat \<Rightarrow> nat \<Rightarrow> nat" where
  \<comment> \<open>\<open>Math.ceil(n * p / q)\<close> on naturals\<close>
  "ceil_ratio n p q = (n * p + (q - 1)) div q"

fun fallbackLoop ::
  "string list \<Rightarrow> string \<Rightarrow> nat list \<Rightarrow> SpatialMapEntry list \<times> RedactionZone list
     \<Rightarrow> SpatialMapEntry list \<times> RedactionZone list" where
  \<comment> \<open>the partial sequential match: the first acceptable candidate wins (\<open>break\<close>);
      \<open>Math.ceil(tokens.length * 0.6)\<close> is \<open>ceil_ratio n 3 5\<close>\<close>
  "fallbackLoop tokens original [] st = st"
| "fallbackLoop tokens original (i # rest) st =
     (let spatialMap = fst st; zones = snd st in
      if clean (sm_text (spatialMap ! i)) \<noteq> tokens ! 0
      then fallbackLoop tokens original rest st
      else (let matched = lookAhead spatialMap tokens
                  [i + 1 ..< min (length spatialMap) (i + length tokens * 2)] [i] 1
            in if length matched \<ge> ceil_ratio (length tokens) 3 5
               then (markRedact spatialMap matched,
                     zones @ [zoneOf (map (\<lambda>k. spatialMap ! k) matched) original
                                (sm_pageIndex (spatialMap ! (matched ! 0)))])
               else fallbackLoop tokens original rest st))"

definition phraseStep ::
  "string \<times> string list \<Rightarrow> SpatialMapEntry list \<times> RedactionZone list
     \<Rightarrow> SpatialMapEntry list \<times> RedactionZone list" where
  \<comment> \<open>pass 1 for one phrase: the exact windows, then the fallback when no zone carries the phrase\<close>
  "phraseStep phrase st =
     (let original = fst phrase; tokens = snd phrase;
          st1 = exactPass tokens original st
      in if \<not> list_ex (\<lambda>z. z_matchedPhrase z = original) (snd st1)
         then fallbackLoop tokens original [0 ..< length (fst st1)] st1
         else st1)"

definition singleStep ::
  "string list \<Rightarrow> nat \<Rightarrow> SpatialMapEntry list \<times> RedactionZone list
     \<Rightarrow> SpatialMapEntry list \<times> RedactionZone list" where
  \<comment> \<open>pass 2 at index \<open>i\<close>\<close>
  "singleStep singleWords i st =
     (let spatialMap = fst st; zones = snd st; entry = spatialMap ! i in
      if sm_redact entry then st
      else (let cleaned = clean (sm_text entry) in
            if length cleaned = 0 then st
            else if cleaned \<in> set singleWords
            then (spatialMap[i := entry\<lparr>sm_redact := True\<rparr>],
                  zones @ [\<lparr>z_x = sm_left entry - REDACTION_PADDING,
                             z_y = sm_top entry - REDACTION_PADDING,
                             z_w = sm_width entry + REDACTION_PADDING * 2,
                             z_h = sm_height entry + REDACTION_PADDING * 2,
                             z_pageIndex = sm_pageIndex entry,
                             z_matchedPhrase = sm_text entry,
                             z_matchedWords = [sm_text entry]\<rparr>])
            else st))"

definition zoneCompare :: "RedactionZone \<Rightarrow> RedactionZone \<Rightarrow> real" where
  \<comment> \<open>the comparator: page, then Y (beyond a 5px tolerance), then X\<close>
  "zoneCompare a b =
     (if z_pageIndex a \<noteq> z_pageIndex b then real_of_int (z_pageIndex a - z_pageIndex b)
      else if \<bar>z_y a - z_y b\<bar> > 5 then z_y a - z_y b
      else z_x a - z_x b)"

definition adjacent :: "RedactionZone \<Rightarrow> RedactionZone \<Rightarrow> bool" where
  \<comment> \<open>the test of the \<open>if\<close> in the merge loop, on \<open>last\<close> and \<open>current\<close>\<close>
  "adjacent lastZone current =
     (z_pageIndex current = z_pageIndex lastZone \<and>
      z_x current \<le> z_x lastZone + z_w lastZone + 2 \<and>
      z_y current \<le> z_y lastZone + z_h lastZone + 2 \<and>
      z_y current + z_h current \<ge> z_y lastZone - 2)"

definition mergeInto :: "RedactionZone \<Rightarrow> RedactionZone \<Rightarrow> RedactionZone" where
  \<comment> \<open>the assignments to \<open>last\<close> in the merge branch\<close>
  "mergeInto lastZone current =
     (let newX = min (z_x lastZone) (z_x current);
          newY = min (z_y lastZone) (z_y current);
          newRight = max (z_x lastZone + z_w lastZone) (z_x current + z_w current);
          newBottom = max (z_y lastZone + z_h lastZone) (z_y current + z_h current)
      in lastZone\<lparr>z_x := newX, z_y := newY, z_w := newRight - newX, z_h := newBottom - newY,
               z_matchedWords := z_matchedWords lastZone @ z_matchedWords current,
               z_matchedPhrase := z_matchedPhrase lastZone @ '' | '' @ z_matchedPhrase current\<rparr>)"

fun mergeLoop :: "RedactionZone list \<Rightarrow> RedactionZone \<Rightarrow> RedactionZone list \<Rightarrow> RedactionZone list" where
  \<comment> \<open>the array \<open>merged\<close> is \<open>kept @ [lastZone]\<close>\<close>
  "mergeLoop kept lastZone [] = kept @ [lastZone]"
| "mergeLoop kept lastZone (current # rest) =
     (if adjacent lastZone current
      then mergeLoop kept (mergeInto lastZone current) rest
      else mergeLoop (kept @ [lastZone]) current rest)"

definition mergeAdjacentZones ::
  "RedactionZone array_sort \<Rightarrow> RedactionZone list \<Rightarrow> RedactionZone list" where
  \<comment> \<open>\<open>engineSort zoneCompare zones\<close> is \<open>[...zones].sort(...)\<close>; the branch \<open>[]\<close> of the \<open>case\<close> is
      not reached when the engine's sort keeps the elements. Zones are values: the value is
      the returned array, for an input array whose zones are distinct objects (as those
      \<open>calculateRedactionZones\<close> passes are). That the folds into the first zone of the
      result are also written into the caller's zone object is not part of the model.\<close>
  "mergeAdjacentZones engineSort zones =
     (if length zones \<le> 1 then zones
      else (case engineSort zoneCompare zones of
              [] \<Rightarrow> []
            | first # rest \<Rightarrow> mergeLoop [] first rest))"

definition calculateRedactionZones ::
  "RedactionZone array_sort \<Rightarrow> SpatialMapEntry list \<Rightarrow> string list
     \<Rightarrow> SpatialMapEntry list \<times> RedactionZone list" where
  \<comment> \<open>returns the spatial map as the call leaves it (the \<open>redact\<close> flags are written in place)
      and the zones; the parameter \<open>_requiredFields\<close> is not read\<close>
  "calculateRedactionZones engineSort spatialMap forbiddenList =
     (let (singleWords, multiPhrases) = partitionForbidden forbiddenList [] [];
          st1 = fold phraseStep multiPhrases (spatialMap, []);
          st2 = fold (singleStep singleWords) [0 ..< length (fst st1)] st1
      in (fst st2, mergeAdjacentZones engineSort (snd st2)))"

definition zonesToEntities :: "RedactionZone list \<Rightarrow> DetectedEntity list" where
  "zonesToEntities zones =
     map (\<lambda>zone. \<lparr>e_type = SENSITIVE, e_value = z_matchedPhrase zone, e_confidence = 9/10,
                   e_bbox = \<lparr>bbox_x = max 0 (z_x zone), bbox_y = max 0 (z_y zone),
                             bbox_w = z_w zone, bbox_h = z_h zone,
                             bbox_pageIndex = z_pageIndex zone\<rparr>,
                   e_masked = True, e_layer = 3\<rparr>) zones"

section \<open>pipeline.ts: the semantic stage of the orchestrator\<close>

text \<open>
  Steps 4 and 5 of \<open>runDetectionPipeline\<close>. \<open>primary k\<close> and \<open>legacy k\<close> are the outcomes of
  call number \<open>k\<close> (counted from 0) of \<open>getGeminiForbiddenList\<close> and of \<open>runGeminiDetection\<close>.
  The result is the entity list \<open>matchingEngineEntities\<close>, with the delays waited around the
  primary and around the legacy call.
\<close>

definition semanticStage ::
  "RedactionZone array_sort \<Rightarrow> string \<Rightarrow> (nat \<Rightarrow> string list promise)
     \<Rightarrow> (nat \<Rightarrow> DetectedEntity list promise)
     \<Rightarrow> SpatialMapEntry list \<Rightarrow> DetectedEntity list \<times> real list \<times> real list" where
  "semanticStage engineSort geminiApiKey primary legacy spatialMap =
     (if geminiApiKey \<noteq> [] then
        (case withRetry primary 3 15000 of
           (Resolved forbiddenList, waited) \<Rightarrow>
             (if length forbiddenList > 0 \<and> length spatialMap > 0
              then zonesToEntities
                     (snd (calculateRedactionZones engineSort spatialMap forbiddenList))
              else [], waited, [])
         | (Rejected err, waited) \<Rightarrow>
             (case withRetry legacy 2 15000 of
                (Resolved legacyEntities, waited2) \<Rightarrow> (legacyEntities, waited, waited2)
              | (Rejected err2, waited2) \<Rightarrow> ([], waited, waited2)))
      else ([], [], []))"

section \<open>layer1.ts\<close>

text \<open>
  The modules \<open>regex\<close> and \<open>checksums\<close> are imported by \<open>layer1.ts\<close>:
  \<open>findAllRegexMatches\<close> and the three validators are parameters of the model. A match
  has the fields read here.
\<close>

record RegexMatch =
  m_type :: PIIType
  m_value :: string
  m_raw :: string
  m_startIndex :: nat
  m_endIndex :: nat

definition mergeWordBBoxes :: "OCRWord list \<Rightarrow> int \<Rightarrow> BoundingBox" where
  "mergeWordBBoxes matchingWords pageIndex =
     (let minX = Math_min (map (\<lambda>w. bbox_x (w_bbox w)) matchingWords);
          minY = Math_min (map (\<lambda>w. bbox_y (w_bbox w)) matchingWords);
          maxX = Math_max (map (\<lambda>w. bbox_x (w_bbox w) + bbox_w (w_bbox w)) matchingWords);
          maxY = Math_max (map (\<lambda>w. bbox_y (w_bbox w) + bbox_h (w_bbox w)) matchingWords)
      in \<lparr>bbox_x = minX, bbox_y = minY, bbox_w = maxX - minX, bbox_h = maxY - minY,
          bbox_pageIndex = pageIndex\<rparr>)"

definition isAlnum :: "char \<Rightarrow> bool" where
  "isAlnum c = (let n = (of_char c :: nat) in
     (97 \<le> n \<and> n \<le> 122) \<or> (65 \<le> n \<and> n \<le> 90) \<or> (48 \<le> n \<and> n \<le> 57))"

definition clean_layer1 :: "string \<Rightarrow> string" where
  \<comment> \<open>the local \<open>clean\<close> of \<open>mapTextToBBox\<close>: \<open>s.replace(/[^a-zA-Z0-9]/g, '')\<close>\<close>
  "clean_layer1 s = filter isAlnum s"

definition wordsMatch :: "OCRWord list \<Rightarrow> string list \<Rightarrow> nat \<Rightarrow> bool" where
  "wordsMatch words cleanedTokens i =
     list_all (\<lambda>j. clean_layer1 (w_text (words ! (i + j))) = cleanedTokens ! j)
       [0 ..< length cleanedTokens]"

fun greedyNext :: "OCRWord list \<Rightarrow> string list \<Rightarrow> nat list \<Rightarrow> OCRWord list \<Rightarrow> nat \<Rightarrow> OCRWord list" where
  \<comment> \<open>strategy 1b, the loop over \<open>j\<close>\<close>
  "greedyNext words cleanedTokens [] matched next = matched"
| "greedyNext words cleanedTokens (j # js) matched next =
     (if next < length cleanedTokens
      then (if clean_layer1 (w_text (words ! j)) = cleanedTokens ! next
            then greedyNext words cleanedTokens js (matched @ [words ! j]) (Suc next)
            else greedyNext words cleanedTokens js matched next)
      else matched)"

fun partialMatch :: "OCRWord list \<Rightarrow> string list \<Rightarrow> int \<Rightarrow> nat list \<Rightarrow> BoundingBox option" where
  \<comment> \<open>strategy 1b, the loop over \<open>i\<close>; \<open>Math.ceil(cleanedTokens.length / 2)\<close> is \<open>ceil_ratio n 1 2\<close>\<close>
  "partialMatch words cleanedTokens pageIndex [] = None"
| "partialMatch words cleanedTokens pageIndex (i # rest) =
     (if clean_layer1 (w_text (words ! i)) \<noteq> cleanedTokens ! 0
      then partialMatch words cleanedTokens pageIndex rest
      else (let matched = greedyNext words cleanedTokens [i + 1 ..< length words] [words ! i] 1
            in if length matched \<ge> ceil_ratio (length cleanedTokens) 1 2
               then Some (mergeWordBBoxes matched pageIndex)
               else partialMatch words cleanedTokens pageIndex rest))"

definition strategy1 :: "string \<Rightarrow> OCRWord list \<Rightarrow> int \<Rightarrow> BoundingBox option" where
  \<comment> \<open>direct token matching; \<open>None\<close> when control falls through to strategy 2\<close>
  "strategy1 matchedText words pageIndex =
     (let tokens = filter (\<lambda>t. length t > 0) (split_ws matchedText) in
      if length tokens > 0 \<and> length words > 0 then
        (let cleanedTokens = filter (\<lambda>t. length t > 0) (map clean_layer1 tokens) in
         if length cleanedTokens > 0 then
           (case find (wordsMatch words cleanedTokens)
                   [0 ..< Suc (length words) - length cleanedTokens] of
              Some i \<Rightarrow> Some (mergeWordBBoxes (slice words i (i + length cleanedTokens)) pageIndex)
            | None \<Rightarrow> partialMatch words cleanedTokens pageIndex [0 ..< length words])
         else None)
      else None)"

fun strategy2 :: "string \<Rightarrow> nat \<Rightarrow> nat \<Rightarrow> OCRWord list \<Rightarrow> nat \<Rightarrow> OCRWord list \<Rightarrow> OCRWord list" where
  \<comment> \<open>position-based mapping: the loop over the words, returning \<open>matchingWords\<close>\<close>
  "strategy2 fullText startIdx endIdx [] currentPos matchingWords = matchingWords"
| "strategy2 fullText startIdx endIdx (word # rest) currentPos matchingWords =
     (case indexOf fullText (w_text word) currentPos of
        None \<Rightarrow> strategy2 fullText startIdx endIdx rest currentPos matchingWords
      | Some wordStart \<Rightarrow>
          (let wordEnd = wordStart + length (w_text word);
               matchingWords' = (if wordEnd > startIdx \<and> wordStart < endIdx
                                 then matchingWords @ [word] else matchingWords)
           in if wordStart > endIdx then matchingWords'
              else strategy2 fullText startIdx endIdx rest wordEnd matchingWords'))"

definition mapTextToBBox :: "nat \<Rightarrow> nat \<Rightarrow> string \<Rightarrow> OCRWord list \<Rightarrow> int \<Rightarrow> BoundingBox" where
  "mapTextToBBox startIdx endIdx fullText words pageIndex =
     (let matchedText = trim (substring fullText startIdx endIdx) in
      case strategy1 matchedText words pageIndex of
        Some result \<Rightarrow> result
      | None \<Rightarrow>
          (let matchingWords = strategy2 fullText startIdx endIdx words 0 [] in
           if length matchingWords > 0 then mergeWordBBoxes matchingWords pageIndex
           else \<lparr>bbox_x = 0, bbox_y = 0, bbox_w = 100, bbox_h = 20, bbox_pageIndex = pageIndex\<rparr>))"

definition scoreMatch ::
  "(string \<Rightarrow> bool) \<Rightarrow> (string \<Rightarrow> bool) \<Rightarrow> (string \<Rightarrow> bool) \<Rightarrow> RegexMatch \<Rightarrow> bool \<times> real" where
  \<comment> \<open>the \<open>switch\<close>: the pair \<open>(valid, confidence)\<close> after it\<close>
  "scoreMatch verhoeffValidate luhnValidate panValidate m =
     (case m_type m of
        AADHAAR \<Rightarrow> (let valid = verhoeffValidate (m_value m) in (valid, if valid then 1 else 6/10))
      | CREDIT_CARD \<Rightarrow> (let valid = luhnValidate (m_value m) in (valid, if valid then 1 else 5/10))
      | PAN \<Rightarrow> (let valid = panValidate (m_value m) in (valid, if valid then 1 else 7/10))
      | PHONE \<Rightarrow> (True, 9/10)
      | _ \<Rightarrow> (True, 85/100))"

fun layer1Loop ::
  "(string \<Rightarrow> bool) \<Rightarrow> (string \<Rightarrow> bool) \<Rightarrow> (string \<Rightarrow> bool) \<Rightarrow> string \<Rightarrow> OCRWord list \<Rightarrow> int
     \<Rightarrow> RegexMatch list \<Rightarrow> DetectedEntity list" where
  "layer1Loop verhoeffValidate luhnValidate panValidate fullText words pageIndex [] = []"
| "layer1Loop verhoeffValidate luhnValidate panValidate fullText words pageIndex (m # rest) =
     (let (valid, confidence) = scoreMatch verhoeffValidate luhnValidate panValidate m in
      if \<not> valid \<and> confidence < 5/10
      then layer1Loop verhoeffValidate luhnValidate panValidate fullText words pageIndex rest
      else \<lparr>e_type = m_type m, e_value = m_raw m, e_confidence = confidence,
            e_bbox = mapTextToBBox (m_startIndex m) (m_endIndex m) fullText words pageIndex,
            e_masked = True, e_layer = 1\<rparr>
           # layer1Loop verhoeffValidate luhnValidate panValidate fullText words pageIndex rest)"

definition runLayer1Detection ::
  "(string \<Rightarrow> RegexMatch list) \<Rightarrow> (string \<Rightarrow> bool) \<Rightarrow> (string \<Rightarrow> bool) \<Rightarrow> (string \<Rightarrow> bool)
     \<Rightarrow> string \<Rightarrow> OCRWord list \<Rightarrow> int \<Rightarrow> DetectedEntity list" where
  "runLayer1Detection findAllRegexMatches verhoeffValidate luhnValidate panValidate
       fullText words pageIndex =
     layer1Loop verhoeffValidate luhnValidate panValidate fullText words pageIndex
       (findAllRegexMatches fullText)"

section \<open>gemini.ts\<close>

datatype json =
  JNull | JBool bool | JNumber real | JString string | JArray "json list"
  | JObject "(string \<times> json) list"

definition CATEGORY_MAP :: "(string \<times> PIIType) list" where
  "CATEGORY_MAP =
    [(''name'', NAME), (''person'', NAME), (''full name'', NAME), (''person name'', NAME),
     (''first name'', NAME), (''last name'', NAME),
     (''phone'', PHONE), (''phone number'', PHONE), (''mobile'', PHONE),
     (''mobile number'', PHONE), (''telephone'', PHONE), (''contact number'', PHONE),
     (''email'', EMAIL), (''email address'', EMAIL),
     (''address'', ADDRESS), (''location'', ADDRESS), (''residence'', ADDRESS),
     (''home address'', ADDRESS),
     (''aadhaar'', AADHAAR), (''aadhar'', AADHAAR), (''uid'', AADHAAR),
     (''aadhaar number'', AADHAAR),
     (''pan'', PAN), (''pan number'', PAN), (''permanent account number'', PAN),
     (''credit card'', CREDIT_CARD), (''card number'', CREDIT_CARD), (''debit card'', CREDIT_CARD),
     (''dob'', DOB), (''date of birth'', DOB), (''birth date'', DOB), (''birthday'', DOB),
     (''medical'', MEDICAL), (''health'', MEDICAL), (''diagnosis'', MEDICAL),
     (''disease'', MEDICAL), (''medication'', MEDICAL), (''medical condition'', MEDICAL),
     (''prescription'', MEDICAL)]"

definition mapCategory :: "string \<Rightarrow> PIIType" where
  \<comment> \<open>the keys that a plain object inherits (\<open>constructor\<close>, \<open>__proto__\<close>) are not modelled\<close>
  "mapCategory category =
     (let lower = trim (toLowerCase category) in
      case map_of CATEGORY_MAP lower of Some t \<Rightarrow> t | None \<Rightarrow> SENSITIVE)"

definition clean_gemini :: "string \<Rightarrow> string" where
  \<comment> \<open>the local \<open>clean\<close> of \<open>findBBoxForString\<close>: \<open>s.toLowerCase().replace(/[^a-z0-9]/g, '')\<close>\<close>
  "clean_gemini s = filter isLowerAlnum (toLowerCase s)"

fun spanBBox :: "OCRWord list \<Rightarrow> int \<Rightarrow> BoundingBox option" where
  \<comment> \<open>the object returned for a slice; both calls pass a slice of at least one word\<close>
  "spanBBox [] pageIndex = None"
| "spanBBox (firstW # others) pageIndex =
     (let sl = firstW # others; lastW = sl ! (length sl - 1) in
      Some \<lparr>bbox_x = bbox_x (w_bbox firstW),
            bbox_y = Math_min (map (\<lambda>w. bbox_y (w_bbox w)) sl),
            bbox_w = (bbox_x (w_bbox lastW) + bbox_w (w_bbox lastW)) - bbox_x (w_bbox firstW),
            bbox_h = Math_max (map (\<lambda>w. bbox_y (w_bbox w) + bbox_h (w_bbox w)) sl) -
                     Math_min (map (\<lambda>w. bbox_y (w_bbox w)) sl),
            bbox_pageIndex = pageIndex\<rparr>)"

definition sliceEvery :: "OCRWord list \<Rightarrow> string list \<Rightarrow> bool" where
  \<comment> \<open>\<open>slice.every((w, j) => clean(w.text) === needleCleaned[j])\<close>\<close>
  "sliceEvery sl needleCleaned =
     list_all (\<lambda>j. clean_gemini (w_text (sl ! j)) = needleCleaned ! j) [0 ..< length sl]"

function countRun :: "OCRWord list \<Rightarrow> string list \<Rightarrow> nat \<Rightarrow> nat \<Rightarrow> nat" where
  \<comment> \<open>the \<open>while\<close> loop of the partial match: the final value of \<open>j\<close>\<close>
  "countRun words needleCleaned i j =
     (if j < length needleCleaned \<and> i + j < length words \<and>
         clean_gemini (w_text (words ! (i + j))) = needleCleaned ! j
      then countRun words needleCleaned i (Suc j)
      else j)"
  by pat_completeness auto
termination
  by (relation "measure (\<lambda>(words, needleCleaned, i, j). length needleCleaned - j)") auto

declare countRun.simps [simp del]

fun partialSpan :: "OCRWord list \<Rightarrow> string list \<Rightarrow> int \<Rightarrow> nat list \<Rightarrow> BoundingBox option" where
  "partialSpan words needleCleaned pageIndex [] = None"
| "partialSpan words needleCleaned pageIndex (i # rest) =
     (if clean_gemini (w_text (words ! i)) \<noteq> needleCleaned ! 0
      then partialSpan words needleCleaned pageIndex rest
      else (let j = countRun words needleCleaned i 1 in
            if j \<ge> ceil_ratio (length needleCleaned) 1 2
            then spanBBox (slice words i (i + j)) pageIndex
            else partialSpan words needleCleaned pageIndex rest))"

definition findBBoxForString :: "string \<Rightarrow> OCRWord list \<Rightarrow> int \<Rightarrow> BoundingBox option" where
  \<comment> \<open>\<open>None\<close> is the result \<open>null\<close>\<close>
  "findBBoxForString sensitiveText words pageIndex =
     (let needleTokens = split_ws (trim sensitiveText);
          needleCleaned = map clean_gemini needleTokens
      in case find (\<lambda>i. sliceEvery (slice words i (i + length needleTokens)) needleCleaned)
                [0 ..< Suc (length words) - length needleTokens] of
           Some i \<Rightarrow> spanBBox (slice words i (i + length needleTokens)) pageIndex
         | None \<Rightarrow>
             (case (if length needleTokens = 1
                    then find (\<lambda>w. clean_gemini (w_text w) = needleCleaned ! 0) words
                    else None) of
                Some word \<Rightarrow> Some ((w_bbox word)\<lparr>bbox_pageIndex := pageIndex\<rparr>)
              | None \<Rightarrow> partialSpan words needleCleaned pageIndex [0 ..< length words]))"

definition extractJsonArray :: "string \<Rightarrow> string option" where
  \<comment> \<open>\<open>raw.match(/\[[\s\S]*\]/)\<close>: from the first \<open>[\<close> that has a \<open>]\<close> after it, greedily to
      the last \<open>]\<close>; \<open>None\<close> when there is no match\<close>
  "extractJsonArray raw =
     (let s = dropWhile (\<lambda>c. c \<noteq> CHR ''['') raw in
      if s = [] then None
      else if CHR '']'' \<in> set (tl s)
      then Some (rev (dropWhile (\<lambda>c. c \<noteq> CHR '']'') (rev s)))
      else None)"

text \<open>
  \<open>JSON.parse\<close> is a parameter: it is only applied to a text that begins with \<open>[\<close> and ends
  with \<open>]\<close>, on which it throws (\<open>None\<close>) or returns an array (its elements).
\<close>

definition parseForbiddenList :: "(string \<Rightarrow> json list option) \<Rightarrow> string \<Rightarrow> string list" where
  \<comment> \<open>\<open>getGeminiForbiddenList\<close> from the response text \<open>raw\<close> on\<close>
  "parseForbiddenList JSON_parse raw =
     (case extractJsonArray raw of
        None \<Rightarrow> []
      | Some text \<Rightarrow>
          (case JSON_parse text of
             None \<Rightarrow> []
           | Some items \<Rightarrow>
               concat (map (\<lambda>item. case item of
                                     JString s \<Rightarrow> (if length (trim s) > 0 then [s] else [])
                                   | _ \<Rightarrow> []) items)))"

fun getProp :: "json \<Rightarrow> string \<Rightarrow> json option" where
  \<comment> \<open>\<open>item.key\<close> for an item that is not \<open>null\<close>; \<open>None\<close> is \<open>undefined\<close>\<close>
  "getProp (JObject kvs) key = map_of kvs key"
| "getProp item key = None"

definition categoryArg :: "json option \<Rightarrow> string option" where
  \<comment> \<open>the argument \<open>item.category ?? ''\<close> of \<open>mapCategory\<close>, which calls \<open>toLowerCase\<close> on it:
      \<open>None\<close> when that call throws a TypeError, the category being no string\<close>
  "categoryArg c =
     (case c of
        None \<Rightarrow> Some []
      | Some JNull \<Rightarrow> Some []
      | Some (JString s) \<Rightarrow> Some s
      | Some other \<Rightarrow> None)"

definition geminiItem ::
  "OCRWord list \<Rightarrow> int \<Rightarrow> json \<Rightarrow> string list \<Rightarrow> DetectedEntity list
     \<Rightarrow> thrown + string list \<times> DetectedEntity list" where
  \<comment> \<open>the body of the loop over \<open>items\<close> in \<open>runGeminiDetection\<close>: \<open>seenTexts\<close> and \<open>entities\<close>
      after the item; reading a property of \<open>null\<close> throws a TypeError\<close>
  "geminiItem words pageIndex item seenTexts entities =
     (if item = JNull then Inl (JsError ''TypeError'')
      else (case getProp item ''text'' of
              Some (JString text) \<Rightarrow>
                (if text = [] then Inr (seenTexts, entities)
                 else (let key = toLowerCase (trim text) in
                       if key \<in> set seenTexts then Inr (seenTexts, entities)
                       else (case categoryArg (getProp item ''category'') of
                               None \<Rightarrow> Inl (JsError ''TypeError'')
                             | Some category \<Rightarrow>
                                 (let ty = mapCategory category;
                                      bbox = findBBoxForString (trim text) words pageIndex
                                  in case bbox of
                                       None \<Rightarrow> Inr (key # seenTexts, entities)
                                     | Some b \<Rightarrow>
                                         Inr (key # seenTexts,
                                              entities @
                                                [\<lparr>e_type = ty, e_value = trim text,
                                                  e_confidence = 9/10, e_bbox = b,
                                                  e_masked = True, e_layer = 2\<rparr>])))))
            | _ \<Rightarrow> Inr (seenTexts, entities)))"

fun geminiLoop ::
  "OCRWord list \<Rightarrow> int \<Rightarrow> json list \<Rightarrow> string list \<Rightarrow> DetectedEntity list
     \<Rightarrow> thrown + DetectedEntity list" where
  "geminiLoop words pageIndex [] seenTexts entities = Inr entities"
| "geminiLoop words pageIndex (item # rest) seenTexts entities =
     (case geminiItem words pageIndex item seenTexts entities of
        Inl err \<Rightarrow> Inl err
      | Inr (seenTexts', entities') \<Rightarrow> geminiLoop words pageIndex rest seenTexts' entities')"

definition runGeminiDetection_items :: "OCRWord list \<Rightarrow> int \<Rightarrow> json list \<Rightarrow> thrown + DetectedEntity list" where
  \<comment> \<open>\<open>runGeminiDetection\<close> from the parsed \<open>items\<close> on\<close>
  "runGeminiDetection_items words pageIndex items = geminiLoop words pageIndex items [] []"

section \<open>Notions used to state the properties\<close>

subsection \<open>Deduplication, in the words of the specification\<close>

definition spec_overlap_ratio :: "BoundingBox \<Rightarrow> BoundingBox \<Rightarrow> real" where
  \<comment> \<open>the area of the intersection over the smaller of the two areas\<close>
  "spec_overlap_ratio a b =
     (max 0 (min (bbox_x a + bbox_w a) (bbox_x b + bbox_w b) - max (bbox_x a) (bbox_x b)) *
      max 0 (min (bbox_y a + bbox_h a) (bbox_y b + bbox_h b) - max (bbox_y a) (bbox_y b)))
     / min (bbox_w a * bbox_h a) (bbox_w b * bbox_h b)"

definition spec_conflict :: "DetectedEntity \<Rightarrow> DetectedEntity \<Rightarrow> bool" where
  \<comment> \<open>same page, and the overlap exceeds 50% of the smaller area\<close>
  "spec_conflict a b =
     (bbox_pageIndex (e_bbox a) = bbox_pageIndex (e_bbox b) \<and>
      spec_overlap_ratio (e_bbox a) (e_bbox b) > 1/2)"

fun spec_greedy :: "DetectedEntity list \<Rightarrow> DetectedEntity list \<Rightarrow> DetectedEntity list" where
  \<comment> \<open>accept each entity unless an accepted one conflicts with it\<close>
  "spec_greedy accepted [] = accepted"
| "spec_greedy accepted (e # es) =
     (if \<exists>a \<in> set accepted. spec_conflict a e
      then spec_greedy accepted es
      else spec_greedy (accepted @ [e]) es)"

definition spec_dedup :: "DetectedEntity list \<Rightarrow> DetectedEntity list" where
  \<comment> \<open>the stable sort by descending confidence, then the greedy pass\<close>
  "spec_dedup es = spec_greedy [] (sort_key (\<lambda>e. - e_confidence e) es)"

definition ranked :: "DetectedEntity \<Rightarrow> DetectedEntity \<Rightarrow> bool" where
  \<comment> \<open>\<open>a\<close> is at least as confident as \<open>b\<close> and does not conflict with it\<close>
  "ranked a b = (e_confidence a \<ge> e_confidence b \<and> \<not> spec_conflict a b)"

definition filteredEntities ::
  "DetectedEntity list \<Rightarrow> DetectedEntity list \<Rightarrow> DetectedEntity list \<Rightarrow> real \<Rightarrow> DetectedEntity list" where
  \<comment> \<open>the array \<open>filtered\<close> of \<open>runDetectionPipeline\<close>, before the required fields are marked\<close>
  "filteredEntities layer1Entities nlpEntities matchingEngineEntities confidenceThreshold =
     filter (\<lambda>e. e_confidence e \<ge> confidenceThreshold)
       (deduplicateEntities (layer1Entities @ nlpEntities @ matchingEngineEntities))"

subsection \<open>Retry\<close>

definition rateLimited :: "'a promise \<Rightarrow> bool" where
  \<comment> \<open>a failure whose message carries \<open>429\<close>\<close>
  "rateLimited p =
     (case p of Resolved v \<Rightarrow> False | Rejected err \<Rightarrow> str_includes (message err) ''429'')"

definition settled :: "'a promise \<Rightarrow> 'a promise" where
  \<comment> \<open>the outcome as \<open>withRetry\<close> passes it on: a thrown value that is no Error is wrapped in one\<close>
  "settled p = (case p of Resolved v \<Rightarrow> Resolved v | Rejected err \<Rightarrow> Rejected (toError err))"

definition backoff :: "real \<Rightarrow> nat \<Rightarrow> real list" where
  \<comment> \<open>the first \<open>k\<close> delays: \<open>d\<close>, \<open>1.5 d\<close>, \<open>1.5\<^sup>2 d\<close>, ...\<close>
  "backoff d k = map (\<lambda>j. d * (3/2) ^ j) [0 ..< k]"

subsection \<open>Sliding windows\<close>

definition windows :: "SpatialMapEntry list \<Rightarrow> string list \<Rightarrow> nat list" where
  \<comment> \<open>the positions at which the window of the phrase's tokens matches exactly\<close>
  "windows sm tokens = filter (allMatch sm tokens) [0 ..< Suc (length sm) - length tokens]"

subsection \<open>The response parser and the deterministic matcher\<close>

definition isForbiddenEntry :: "json \<Rightarrow> bool" where
  \<comment> \<open>a string that is not blank after trimming\<close>
  "isForbiddenEntry item = (case item of JString s \<Rightarrow> length (trim s) > 0 | _ \<Rightarrow> False)"

definition spec_valid ::
  "(string \<Rightarrow> bool) \<Rightarrow> (string \<Rightarrow> bool) \<Rightarrow> (string \<Rightarrow> bool) \<Rightarrow> RegexMatch \<Rightarrow> bool" where
  \<comment> \<open>the category's validation primitive accepts the value; a category without one is valid\<close>
  "spec_valid verhoeffValidate luhnValidate panValidate m =
     (if m_type m = AADHAAR then verhoeffValidate (m_value m)
      else if m_type m = CREDIT_CARD then luhnValidate (m_value m)
      else if m_type m = PAN then panValidate (m_value m)
      else True)"

definition spec_confidence ::
  "(string \<Rightarrow> bool) \<Rightarrow> (string \<Rightarrow> bool) \<Rightarrow> (string \<Rightarrow> bool) \<Rightarrow> RegexMatch \<Rightarrow> real" where
  \<comment> \<open>1.0 when validated, else the category's floor; 0.9 for phone, 0.85 for the rest\<close>
  "spec_confidence verhoeffValidate luhnValidate panValidate m =
     (if m_type m \<in> {AADHAAR, CREDIT_CARD, PAN} then
        (if spec_valid verhoeffValidate luhnValidate panValidate m then 1
         else if m_type m = AADHAAR then 6/10
         else if m_type m = CREDIT_CARD then 5/10
         else 7/10)
      else if m_type m = PHONE then 9/10
      else 85/100)"

subsection \<open>Zone merging\<close>









subsection \<open>Sample data\<close>

definition sample_entity :: "PIIType \<Rightarrow> real \<Rightarrow> real \<Rightarrow> real \<Rightarrow> DetectedEntity" where
  \<comment> \<open>a masked entity of the given category and confidence, 100 by 20 pixels at \<open>(x, y)\<close> on page 0\<close>
  "sample_entity ty c x y =
     \<lparr>e_type = ty, e_value = ''value'', e_confidence = c,
      e_bbox = \<lparr>bbox_x = x, bbox_y = y, bbox_w = 100, bbox_h = 20, bbox_pageIndex = 0\<rparr>,
      e_masked = True, e_layer = 1\<rparr>"

definition sample_entry :: "string \<Rightarrow> real \<Rightarrow> SpatialMapEntry" where
  \<comment> \<open>a token 40 by 12 pixels on the line \<open>y = 20\<close> of page 0\<close>
  "sample_entry t x =
     \<lparr>sm_text = t, sm_left = x, sm_top = 20, sm_width = 40, sm_height = 12,
      sm_pageIndex = 0, sm_redact = False\<rparr>"

definition sample_map :: "SpatialMapEntry list" where
  \<comment> \<open>the tokens John, Doe, lives, in, Pune on one line\<close>
  "sample_map = [sample_entry ''John'' 10, sample_entry ''Doe'' 60, sample_entry ''lives'' 110,
                 sample_entry ''in'' 160, sample_entry ''Pune'' 210]"

definition sample_word :: "string \<Rightarrow> real \<Rightarrow> real \<Rightarrow> OCRWord" where
  \<comment> \<open>a word 40 by 10 pixels at \<open>(x, y)\<close> on page 0\<close>
  "sample_word t x y =
     \<lparr>w_text = t, w_confidence = 90,
      w_bbox = \<lparr>bbox_x = x, bbox_y = y, bbox_w = 40, bbox_h = 10, bbox_pageIndex = 0\<rparr>\<rparr>"

definition sample_zone :: "string \<Rightarrow> real \<Rightarrow> real \<Rightarrow> RedactionZone" where
  \<comment> \<open>a zone 10 by 10 pixels at \<open>(x, y)\<close> on page 0\<close>
  "sample_zone t x y =
     \<lparr>z_x = x, z_y = y, z_w = 10, z_h = 10, z_pageIndex = 0,
      z_matchedPhrase = t, z_matchedWords = [t]\<rparr>"

definition sample_match :: "PIIType \<Rightarrow> RegexMatch" where
  \<comment> \<open>a match of the given category at the start of the text\<close>
  "sample_match ty =
     \<lparr>m_type = ty, m_value = ''123412341234'', m_raw = ''1234 1234 1234'',
      m_startIndex = 0, m_endIndex = 14\<rparr>"

definition sample_limited :: "nat \<Rightarrow> 'a \<Rightarrow> nat \<Rightarrow> 'a promise" where
  \<comment> \<open>a call that is rate-limited \<open>n\<close> times and then answers \<open>v\<close>\<close>
  "sample_limited n v k =
     (if k < n then Rejected (JsError ''Gemini API error 429: Too Many Requests'') else Resolved v)"

definition sample_parse :: "string \<Rightarrow> json list option" where
  \<comment> \<open>\<open>JSON.parse\<close> on three texts: two arrays, and a text that is not JSON\<close>
  "sample_parse s =
     (if s = ''[\"Male\", 7, \" \"]'' then Some [JString ''Male'', JNumber 7, JString '' '']
      else if s = ''[\"Male\"]'' then Some [JString ''Male'']
      else None)"

definition sample_refused :: "nat \<Rightarrow> 'a promise" where
  \<comment> \<open>a call that fails with a server error\<close>
  "sample_refused k = Rejected (JsError ''Gemini API error 500: Internal'')"

definition sample_words :: "OCRWord list" where
  \<comment> \<open>John at the end of one line, Doe at the start of the next\<close>
  "sample_words = [sample_word ''John'' 500 0, sample_word ''Doe'' 10 20]"

definition sample_item :: "string \<Rightarrow> string \<Rightarrow> json" where
  \<comment> \<open>the object \<open>{"text": t, "category": c}\<close>\<close>
  "sample_item t c = JObject [(''text'', JString t), (''category'', JString c)]"

section \<open>The engine's sort\<close>

text \<open>
  The insertion sort \<open>Array_sort\<close> is a conforming sort: its result holds the elements of the
  input, and for a consistent comparator it is sorted and keeps the order of the elements
  that compare equal. For a consistent comparator there is one such list, so that every
  conforming sort returns the list \<open>Array_sort\<close> returns, and returns a list that is already
  in order unchanged. The comparator of \<open>deduplicateEntities\<close> is consistent for every input.
\<close>

lemma set_insort_cmp [simp]: "set (insort_cmp cmp x ys) = insert x (set ys)"
  by (induction ys) auto

lemma count_insort_cmp: "count_list (insort_cmp cmp x ys) z = count_list (x # ys) z"
  by (induction ys) auto

lemma count_Array_sort: "count_list (Array_sort cmp xs) z = count_list xs z"
  by (induction xs) (simp_all add: Array_sort_def count_insort_cmp)

lemma length_insort_cmp [simp]: "length (insort_cmp cmp x ys) = Suc (length ys)"
  by (induction ys) auto

lemma length_Array_sort [simp]: "length (Array_sort cmp xs) = length xs"
  by (induction xs) (simp_all add: Array_sort_def)

lemma Array_sort_in_order:
  "sorted_wrt (\<lambda>a b. cmp a b \<le> 0) xs \<Longrightarrow> Array_sort cmp xs = xs"
proof (induction xs)
  case Nil
  then show ?case by (simp add: Array_sort_def)
next
  case (Cons x xs)
  then have "Array_sort cmp xs = xs" by simp
  moreover have "insort_cmp cmp x xs = x # xs"
    using Cons.prems by (cases xs) auto
  ultimately show ?case by (simp add: Array_sort_def)
qed

lemma count_list_Nil:
  assumes "\<forall>z. count_list ys z = 0"
  shows "ys = []"
proof (cases ys)
  case Nil
  then show ?thesis .
next
  case (Cons y l)
  then have "count_list ys y \<noteq> 0" by simp
  with assms show ?thesis by simp
qed




lemma consistentD:
  assumes "consistent cmp S" "a \<in> S" "b \<in> S" "c \<in> S"
  shows "cmp a a = 0" "cmp a b = 0 \<Longrightarrow> cmp b a = 0"
    "cmp a b = 0 \<Longrightarrow> cmp b c = 0 \<Longrightarrow> cmp a c = 0"
    "cmp a b < 0 \<Longrightarrow> cmp b c < 0 \<Longrightarrow> cmp a c < 0"
    "cmp a b > 0 \<Longrightarrow> cmp b c > 0 \<Longrightarrow> cmp a c > 0"
  using assms unfolding consistent_def by blast+

lemma consistent_total:
  assumes "consistent cmp S" "a \<in> S" "b \<in> S" "cmp a b > 0"
  shows "cmp b a < 0"
proof (rule ccontr)
  assume "\<not> cmp b a < 0"
  then consider "cmp b a = 0" | "cmp b a > 0" by linarith
  then show False
  proof cases
    case 1
    then have "cmp a b = 0" using consistentD(2) [OF assms(1) assms(3) assms(2) assms(2)] by simp
    with assms(4) show False by simp
  next
    case 2
    with assms(4) have "cmp a a > 0"
      using consistentD(5) [OF assms(1) assms(2) assms(3) assms(2)] by simp
    moreover have "cmp a a = 0" using consistentD(1) [OF assms(1) assms(2) assms(2) assms(2)] .
    ultimately show False by simp
  qed
qed

lemma consistent_trans_le:
  assumes k: "consistent cmp S" and a: "a \<in> S" and b: "b \<in> S" and c: "c \<in> S"
    and ab: "cmp a b \<le> 0" and bc: "cmp b c \<le> 0"
  shows "cmp a c \<le> 0"
proof (rule ccontr)
  assume "\<not> cmp a c \<le> 0"
  then have ac: "cmp a c > 0" by simp
  then have ca: "cmp c a < 0" using consistent_total [OF k a c] by simp
  from ab consider "cmp a b < 0" | "cmp a b = 0" by linarith
  then show False
  proof cases
    case 1
    with ca have cb: "cmp c b < 0" using consistentD(4) [OF k c a b] by simp
    from bc consider "cmp b c < 0" | "cmp b c = 0" by linarith
    then show False
    proof cases
      case 1
      with cb have "cmp c c < 0" using consistentD(4) [OF k c b c] by simp
      moreover have "cmp c c = 0" using consistentD(1) [OF k c c c] .
      ultimately show False by simp
    next
      case 2
      then have "cmp c b = 0" using consistentD(2) [OF k b c c] by simp
      with cb show False by simp
    qed
  next
    case 2
    then have ba: "cmp b a = 0" using consistentD(2) [OF k a b b] by simp
    from bc consider "cmp b c < 0" | "cmp b c = 0" by linarith
    then show False
    proof cases
      case 1
      with ca have "cmp b a < 0" using consistentD(4) [OF k b c a] by simp
      with ba show False by simp
    next
      case eq: 2
      with 2 have "cmp a c = 0" using consistentD(3) [OF k a b c] by simp
      with ac show False by simp
    qed
  qed
qed

lemma consistent_mono: "consistent cmp S \<Longrightarrow> T \<subseteq> S \<Longrightarrow> consistent cmp T"
  unfolding consistent_def by blast

lemma insort_cmp_sorted:
  assumes "consistent cmp (set (x # ys))" "sorted_wrt (\<lambda>a b. cmp a b \<le> 0) ys"
  shows "sorted_wrt (\<lambda>a b. cmp a b \<le> 0) (insort_cmp cmp x ys)"
  using assms
proof (induction ys)
  case Nil
  then show ?case by simp
next
  case (Cons y ys)
  show ?case
  proof (cases "cmp x y \<le> 0")
    case True
    have "\<forall>b\<in>set ys. cmp x b \<le> 0"
    proof
      fix b assume b: "b \<in> set ys"
      with Cons.prems(2) have "cmp y b \<le> 0" by simp
      with True show "cmp x b \<le> 0"
        using consistent_trans_le [OF Cons.prems(1), of x y b] b by simp
    qed
    with True Cons.prems(2) show ?thesis by simp
  next
    case False
    then have yx: "cmp y x \<le> 0"
      using consistent_total [OF Cons.prems(1), of x y] by simp
    have "consistent cmp (set (x # ys))"
      using Cons.prems(1) by (rule consistent_mono) auto
    moreover have "sorted_wrt (\<lambda>a b. cmp a b \<le> 0) ys" using Cons.prems(2) by simp
    ultimately have "sorted_wrt (\<lambda>a b. cmp a b \<le> 0) (insort_cmp cmp x ys)" by (rule Cons.IH)
    with False yx Cons.prems(2) show ?thesis by auto
  qed
qed

lemma Array_sort_sorts:
  "consistent cmp (set xs) \<Longrightarrow> sorted_wrt (\<lambda>a b. cmp a b \<le> 0) (Array_sort cmp xs)"
proof (induction xs)
  case Nil
  then show ?case by (simp add: Array_sort_def)
next
  case (Cons x xs)
  have "consistent cmp (set xs)" using Cons.prems by (rule consistent_mono) auto
  then have s: "sorted_wrt (\<lambda>a b. cmp a b \<le> 0) (Array_sort cmp xs)" by (rule Cons.IH)
  have e: "set (Array_sort cmp xs) = set xs"
    by (induction xs) (simp_all add: Array_sort_def)
  have "sorted_wrt (\<lambda>a b. cmp a b \<le> 0) (insort_cmp cmp x (Array_sort cmp xs))"
    using Cons.prems s by (intro insort_cmp_sorted) (simp_all add: e)
  then show ?case by (simp add: Array_sort_def)
qed

lemma insort_cmp_stable:
  assumes "consistent cmp S" "x \<in> S" "set ys \<subseteq> S" "a \<in> S"
  shows "filter (\<lambda>y. cmp y a = 0) (insort_cmp cmp x ys) = filter (\<lambda>y. cmp y a = 0) (x # ys)"
  using assms(3)
proof (induction ys)
  case Nil
  then show ?case by simp
next
  case (Cons y ys)
  then have y: "y \<in> S" and ys: "set ys \<subseteq> S" by simp_all
  show ?case
  proof (cases "cmp x y \<le> 0")
    case True
    then show ?thesis by simp
  next
    case False
    have "\<not> (cmp x a = 0 \<and> cmp y a = 0)"
    proof
      assume h: "cmp x a = 0 \<and> cmp y a = 0"
      then have "cmp a y = 0" using consistentD(2) [OF assms(1) y assms(4) y] by simp
      with h have "cmp x y = 0" using consistentD(3) [OF assms(1) assms(2) assms(4) y] by simp
      with False show False by simp
    qed
    with False Cons.IH [OF ys] show ?thesis by auto
  qed
qed

lemma set_Array_sort [simp]: "set (Array_sort cmp xs) = set xs"
  by (induction xs) (simp_all add: Array_sort_def)

lemma Array_sort_stable:
  assumes "consistent cmp S" "set xs \<subseteq> S" "a \<in> S"
  shows "filter (\<lambda>y. cmp y a = 0) (Array_sort cmp xs) = filter (\<lambda>y. cmp y a = 0) xs"
  using assms(2)
proof (induction xs)
  case Nil
  then show ?case by (simp add: Array_sort_def)
next
  case (Cons x xs)
  then have x: "x \<in> S" and xs: "set xs \<subseteq> S" by simp_all
  have "filter (\<lambda>y. cmp y a = 0) (insort_cmp cmp x (Array_sort cmp xs)) =
      filter (\<lambda>y. cmp y a = 0) (x # Array_sort cmp xs)"
    using assms(1) x _ assms(3) by (rule insort_cmp_stable) (simp add: xs)
  with Cons.IH [OF xs] show ?case by (simp add: Array_sort_def)
qed

lemma count_list_set: "(\<forall>z. count_list ys z = count_list xs z) \<Longrightarrow> set ys = set xs"
  by (metis count_list_0_iff subsetI subset_antisym)

lemma stable_sorted_unique:
  assumes k: "consistent cmp S"
  shows "set xs \<subseteq> S \<Longrightarrow> \<forall>z. count_list ys z = count_list xs z \<Longrightarrow>
    sorted_wrt (\<lambda>a b. cmp a b \<le> 0) xs \<Longrightarrow> sorted_wrt (\<lambda>a b. cmp a b \<le> 0) ys \<Longrightarrow>
    \<forall>a\<in>set xs. filter (\<lambda>y. cmp y a = 0) ys = filter (\<lambda>y. cmp y a = 0) xs \<Longrightarrow> ys = xs"
proof (induction xs arbitrary: ys)
  case Nil
  then show ?case by (simp add: count_list_Nil)
next
  case (Cons x xs)
  from Cons.prems(2) have sets: "set ys = set (x # xs)" by (rule count_list_set)
  then have "ys \<noteq> []" by auto
  then obtain y ys' where ys: "ys = y # ys'" by (cases ys) auto
  have xS: "x \<in> S" and xsS: "set xs \<subseteq> S" using Cons.prems(1) by simp_all
  have yS: "y \<in> S" using sets ys Cons.prems(1) by auto
  have rx: "cmp x x = 0" using consistentD(1) [OF k xS xS xS] .
  have ry: "cmp y y = 0" using consistentD(1) [OF k yS yS yS] .
  have xy: "cmp x y \<le> 0"
  proof (cases "y = x")
    case True
    with rx show ?thesis by simp
  next
    case False
    with sets ys have "y \<in> set xs" by auto
    with Cons.prems(3) show ?thesis by simp
  qed
  have yx: "cmp y x \<le> 0"
  proof (cases "x = y")
    case True
    with ry show ?thesis by simp
  next
    case False
    with sets ys have "x \<in> set ys'" by auto
    with Cons.prems(4) ys show ?thesis by simp
  qed
  have e: "cmp y x = 0"
  proof (rule ccontr)
    assume "cmp y x \<noteq> 0"
    with yx have lt: "cmp y x < 0" by simp
    have "\<not> cmp x y > 0"
    proof
      assume "cmp x y > 0"
      with xy show False by simp
    qed
    with xy consider "cmp x y < 0" | "cmp x y = 0" by linarith
    then show False
    proof cases
      case 1
      with lt have "cmp y y < 0" using consistentD(4) [OF k yS xS yS] by simp
      with ry show False by simp
    next
      case 2
      then have "cmp y x = 0" using consistentD(2) [OF k xS yS yS] by simp
      with lt show False by simp
    qed
  qed
  from Cons.prems(5) have "filter (\<lambda>y. cmp y x = 0) ys = filter (\<lambda>y. cmp y x = 0) (x # xs)"
    by simp
  with e rx ys have head: "y = x" by simp
  have tail_count: "\<forall>z. count_list ys' z = count_list xs z"
    using Cons.prems(2) ys head by (auto split: if_splits)
  have tail_stable: "\<forall>a\<in>set xs. filter (\<lambda>y. cmp y a = 0) ys' = filter (\<lambda>y. cmp y a = 0) xs"
  proof
    fix a assume "a \<in> set xs"
    with Cons.prems(5) have "filter (\<lambda>y. cmp y a = 0) ys = filter (\<lambda>y. cmp y a = 0) (x # xs)"
      by simp
    with ys head show "filter (\<lambda>y. cmp y a = 0) ys' = filter (\<lambda>y. cmp y a = 0) xs"
      by (simp split: if_splits)
  qed
  have "ys' = xs"
    using xsS tail_count _ _ tail_stable
    by (rule Cons.IH) (use Cons.prems(3,4) ys in simp_all)
  with ys head show ?case by simp
qed


lemma conforming_perm:
  "conforming engineSort \<Longrightarrow> \<forall>z. count_list (engineSort cmp xs) z = count_list xs z"
  by (simp add: conforming_def)


lemma conforming_consistent:
  assumes "conforming engineSort" "consistent cmp (set xs)"
  shows "engineSort cmp xs = Array_sort cmp xs"
proof -
  let ?ys = "Array_sort cmp xs"
  from assms(1,2) have s: "sorted_wrt (\<lambda>a b. cmp a b \<le> 0) (engineSort cmp xs)"
    and t: "\<forall>a\<in>set xs. filter (\<lambda>y. cmp y a = 0) (engineSort cmp xs) = filter (\<lambda>y. cmp y a = 0) xs"
    unfolding conforming_def by blast+
  have k: "consistent cmp (set ?ys)" using assms(2) by simp
  have c: "\<forall>z. count_list (engineSort cmp xs) z = count_list ?ys z"
    using conforming_perm [OF assms(1)] by (simp add: count_Array_sort)
  have s': "sorted_wrt (\<lambda>a b. cmp a b \<le> 0) ?ys" using assms(2) by (rule Array_sort_sorts)
  have t': "\<forall>a\<in>set ?ys. filter (\<lambda>y. cmp y a = 0) (engineSort cmp xs) = filter (\<lambda>y. cmp y a = 0) ?ys"
    using t Array_sort_stable [OF assms(2), of xs] by simp
  from k _ c s' s t' show ?thesis
    by (rule stable_sorted_unique) simp
qed

lemma confidence_consistent: "consistent (\<lambda>a b. e_confidence b - e_confidence a) S"
  by (auto simp: consistent_def)

lemma dedup_sort_conforming:
  "conforming engineSort \<Longrightarrow>
   engineSort (\<lambda>a b. e_confidence b - e_confidence a) entities =
     Array_sort (\<lambda>a b. e_confidence b - e_confidence a) entities"
  by (rule conforming_consistent) (simp_all add: confidence_consistent)

section \<open>Deduplication\<close>

lemma insort_cmp_confidence:
  "insort_cmp (\<lambda>a b. e_confidence b - e_confidence a) x ys = insort_key (\<lambda>e. - e_confidence e) x ys"
  by (induction ys) auto

lemma Array_sort_confidence:
  "Array_sort (\<lambda>a b. e_confidence b - e_confidence a) es = sort_key (\<lambda>e. - e_confidence e) es"
  by (induction es) (simp_all add: Array_sort_def insort_cmp_confidence)

lemma boxesOverlap_ratio:
  "boxesOverlap a b (1/2) \<longleftrightarrow> spec_overlap_ratio a b > 1/2"
proof -
  let ?ov = "max 0 (min (bbox_x a + bbox_w a) (bbox_x b + bbox_w b) - max (bbox_x a) (bbox_x b)) *
      max 0 (min (bbox_y a + bbox_h a) (bbox_y b + bbox_h b) - max (bbox_y a) (bbox_y b))"
  let ?m = "min (bbox_w a * bbox_h a) (bbox_w b * bbox_h b)"
  have ov: "0 \<le> ?ov" by simp
  have "?ov / ?m > 1/2 \<Longrightarrow> ?m > 0"
  proof (rule ccontr)
    assume r: "?ov / ?m > 1/2" and "\<not> ?m > 0"
    then have "?m \<le> 0" by linarith
    with ov have "?ov / ?m \<le> 0" by (rule divide_nonneg_nonpos)
    with r show False by linarith
  qed
  then show ?thesis
    unfolding boxesOverlap_def spec_overlap_ratio_def Let_def by blast
qed

lemma overlaps_conflict:
  "list_ex (\<lambda>existing.
      bbox_pageIndex (e_bbox existing) = bbox_pageIndex (e_bbox entity) \<and>
      boxesOverlap (e_bbox existing) (e_bbox entity) (1/2)) result
   \<longleftrightarrow> (\<exists>a \<in> set result. spec_conflict a entity)"
  unfolding list_ex_iff spec_conflict_def boxesOverlap_ratio ..

lemma dedupLoop_spec: "dedupLoop acc es = spec_greedy acc es"
  by (induction es arbitrary: acc) (simp_all add: Let_def overlaps_conflict)

lemma dedup_refines: "deduplicateEntities es = spec_dedup es"
  by (simp add: deduplicateEntities_def spec_dedup_def Array_sort_confidence dedupLoop_spec)


lemma spec_greedy_ranked:
  "sorted_wrt ranked acc \<Longrightarrow> sorted_wrt (\<lambda>a b. e_confidence a \<ge> e_confidence b) es \<Longrightarrow>
   (\<forall>a \<in> set acc. \<forall>e \<in> set es. e_confidence a \<ge> e_confidence e) \<Longrightarrow>
   sorted_wrt ranked (spec_greedy acc es)"
proof (induction es arbitrary: acc)
  case Nil
  then show ?case by simp
next
  case (Cons e es)
  show ?case
  proof (cases "\<exists>a \<in> set acc. spec_conflict a e")
    case True
    with Cons show ?thesis by simp
  next
    case False
    have "\<forall>a \<in> set acc. ranked a e"
      using Cons.prems(3) False by (simp add: ranked_def)
    then have "sorted_wrt ranked (acc @ [e])"
      using Cons.prems(1) by (simp add: sorted_wrt_append)
    moreover have "\<forall>a \<in> set (acc @ [e]). \<forall>x \<in> set es. e_confidence a \<ge> e_confidence x"
      using Cons.prems by auto
    ultimately have "sorted_wrt ranked (spec_greedy (acc @ [e]) es)"
      using Cons.IH Cons.prems by simp
    with False show ?thesis by simp
  qed
qed

lemma dedup_ranked: "sorted_wrt ranked (deduplicateEntities es)"
proof -
  have "sorted (map (\<lambda>e. - e_confidence e) (sort_key (\<lambda>e. - e_confidence e) es))"
    by (rule sorted_sort_key)
  then have "sorted_wrt (\<lambda>a b. e_confidence a \<ge> e_confidence b) (sort_key (\<lambda>e. - e_confidence e) es)"
    by (simp add: sorted_map)
  then show ?thesis
    unfolding dedup_refines spec_dedup_def by (intro spec_greedy_ranked) simp_all
qed

lemma sorted_wrt_either:
  "sorted_wrt P xs \<Longrightarrow> a \<in> set xs \<Longrightarrow> b \<in> set xs \<Longrightarrow> a \<noteq> b \<Longrightarrow> P a b \<or> P b a"
  by (induction xs) auto

lemma dedup_excludes:
  assumes "a \<in> set (deduplicateEntities es)" "spec_conflict a b" "e_confidence b < e_confidence a"
  shows "b \<notin> set (deduplicateEntities es)"
proof
  assume b: "b \<in> set (deduplicateEntities es)"
  from assms(3) have "a \<noteq> b" by auto
  from sorted_wrt_either [OF dedup_ranked assms(1) b this] assms
  show False by (auto simp: ranked_def)
qed

lemma dedup_pair:
  assumes "spec_conflict a b" "e_confidence b < e_confidence a"
  shows "deduplicateEntities [a, b] = [a]" "deduplicateEntities [b, a] = [a]"
  using assms by (simp_all add: dedup_refines spec_dedup_def)


text \<open>
  Claim C1. Cross-layer deduplication sorts the union of the layers' entities by confidence,
  descending and stable, and greedily accepts an entity unless an accepted entity is on the
  same page and the two boxes' intersection exceeds 50% of the smaller area. For two
  same-page entities with an overlap ratio above 0.5 and confidences 0.9 and 0.6, given in
  either order, only the 0.9 entity is returned; and whatever else is in the input, the 0.6
  entity is not returned when the 0.9 entity is.
\<close>

theorem deduplicateEntities_greedy:
  "deduplicateEntities es = spec_dedup es \<and>
   (spec_conflict a b \<and> e_confidence a = 9/10 \<and> e_confidence b = 6/10 \<longrightarrow>
      deduplicateEntities [a, b] = [a] \<and> deduplicateEntities [b, a] = [a] \<and>
      (a \<in> set (deduplicateEntities es) \<longrightarrow> b \<notin> set (deduplicateEntities es)))"
proof (intro conjI impI)
  show "deduplicateEntities es = spec_dedup es" by (rule dedup_refines)
next
  assume h: "spec_conflict a b \<and> e_confidence a = 9/10 \<and> e_confidence b = 6/10"
  then have lt: "e_confidence b < e_confidence a" by simp
  from h lt show "deduplicateEntities [a, b] = [a]" by (simp add: dedup_pair)
  from h lt show "deduplicateEntities [b, a] = [a]" by (simp add: dedup_pair)
  assume "a \<in> set (deduplicateEntities es)"
  with h lt show "b \<notin> set (deduplicateEntities es)" by (simp add: dedup_excludes)
qed

theorem deduplicateEntities_greedy_witness:
  "spec_conflict (sample_entity NAME (9/10) 0 0) (sample_entity SENSITIVE (6/10) 10 0) \<and>
   e_confidence (sample_entity NAME (9/10) 0 0) = 9/10 \<and>
   e_confidence (sample_entity SENSITIVE (6/10) 10 0) = 6/10 \<and>
   deduplicateEntities [sample_entity SENSITIVE (6/10) 10 0, sample_entity NAME (9/10) 0 0] =
     [sample_entity NAME (9/10) 0 0] \<and>
   sample_entity NAME (9/10) 0 0 \<in>
     set (deduplicateEntities [sample_entity SENSITIVE (6/10) 10 0, sample_entity NAME (9/10) 0 0]) \<and>
   sample_entity SENSITIVE (6/10) 10 0 \<notin>
     set (deduplicateEntities [sample_entity SENSITIVE (6/10) 10 0, sample_entity NAME (9/10) 0 0])"
proof -
  let ?a = "sample_entity NAME (9/10) 0 0" and ?b = "sample_entity SENSITIVE (6/10) 10 0"
  have h: "spec_conflict ?a ?b \<and> e_confidence ?a = 9/10 \<and> e_confidence ?b = 6/10"
    by (simp add: spec_conflict_def spec_overlap_ratio_def sample_entity_def)
  note t = deduplicateEntities_greedy [of "[?b, ?a]" ?a ?b]
  from t h have d: "deduplicateEntities [?b, ?a] = [?a]" by blast
  then have m: "?a \<in> set (deduplicateEntities [?b, ?a])" by simp
  with t h have n: "?b \<notin> set (deduplicateEntities [?b, ?a])" by blast
  from h d m n show ?thesis by blast
qed

section \<open>Retry and the required-field override\<close>

lemma backoff_Suc: "backoff d (Suc k) = d # backoff (d * 1.5) k"
proof -
  have "map (\<lambda>j. d * (3/2) ^ j) [0 ..< Suc k] = (d * (3/2) ^ 0) # map (\<lambda>j. d * (3/2) ^ Suc j) [0 ..< k]"
    by (simp only: map_upt_Suc)
  then show ?thesis by (simp add: backoff_def mult.assoc)
qed

lemma message_toError [simp]: "message (toError err) = message err"
  by (cases err) simp_all

lemma withRetryLoop_run:
  assumes "\<forall>j<k. rateLimited (fn (a + j))" "int (a + k) \<le> maxRetries"
    "\<not> rateLimited (fn (a + k)) \<or> int (a + k) = maxRetries"
  shows "withRetryLoop fn maxRetries a d lastError waited = (settled (fn (a + k)), waited @ backoff d k)"
  using assms
proof (induction k arbitrary: a d lastError waited)
  case 0
  then show ?case
    by (subst withRetryLoop.simps)
       (auto simp: rateLimited_def backoff_def settled_def split: promise.splits)
next
  case (Suc k)
  from Suc.prems(1) have rl: "rateLimited (fn a)" by force
  then obtain err where err: "fn a = Rejected err" "str_includes (message err) ''429''"
    by (auto simp: rateLimited_def split: promise.splits)
  from Suc.prems(2) have lt: "int a < maxRetries" by simp
  have "\<forall>j<k. rateLimited (fn (Suc a + j))"
    using Suc.prems(1) by (metis Suc_less_eq add_Suc_right add_Suc)
  moreover have "int (Suc a + k) \<le> maxRetries" using Suc.prems(2) by simp
  moreover have "\<not> rateLimited (fn (Suc a + k)) \<or> int (Suc a + k) = maxRetries"
    using Suc.prems(3) by simp
  ultimately have IH: "withRetryLoop fn maxRetries (Suc a) (d * 1.5) (toError err) (waited @ [d]) =
      (settled (fn (Suc a + k)), (waited @ [d]) @ backoff (d * 1.5) k)"
    by (rule Suc.IH)
  have "withRetryLoop fn maxRetries a d lastError waited =
      withRetryLoop fn maxRetries (Suc a) (d * 1.5) (toError err) (waited @ [d])"
    using err lt by (subst withRetryLoop.simps) simp
  with IH show ?case by (simp add: backoff_Suc)
qed

lemma withRetry_run:
  assumes "\<forall>j<k. rateLimited (fn j)" "int k \<le> maxRetries"
    "\<not> rateLimited (fn k) \<or> int k = maxRetries"
  shows "withRetry fn maxRetries d = (settled (fn k), backoff d k)"
  using withRetryLoop_run [of k fn 0 maxRetries d Undefined "[]"] assms
  by (simp add: withRetry_def)

lemma withRetryLoop_bound:
  "length (snd (withRetryLoop fn maxRetries a d lastError waited)) \<le> length waited + nat (maxRetries - int a)"
proof (induction fn maxRetries a d lastError waited rule: withRetryLoop.induct)
  case (1 fn maxRetries attempt delay lastError waited)
  show ?case
  proof (cases "int attempt \<le> maxRetries")
    case False
    then show ?thesis by (subst withRetryLoop.simps) simp
  next
    case True
    show ?thesis
    proof (cases "fn attempt")
      case (Resolved v)
      with True show ?thesis by (subst withRetryLoop.simps) simp
    next
      case (Rejected err)
      show ?thesis
      proof (cases "\<not> str_includes (message (toError err)) ''429'' \<or> int attempt \<ge> maxRetries")
        case stop: True
        with True Rejected show ?thesis by (subst withRetryLoop.simps) auto
      next
        case go: False
        from "1.IH" [OF True Rejected go]
        have "length (snd (withRetryLoop fn maxRetries (Suc attempt) (delay * 1.5) (toError err) (waited @ [delay])))
            \<le> length (waited @ [delay]) + nat (maxRetries - int (Suc attempt))" .
        moreover have "withRetryLoop fn maxRetries attempt delay lastError waited =
            withRetryLoop fn maxRetries (Suc attempt) (delay * 1.5) (toError err) (waited @ [delay])"
          using True Rejected go by (subst withRetryLoop.simps) simp
        moreover have "Suc (nat (maxRetries - int (Suc attempt))) = nat (maxRetries - int attempt)"
          using go by linarith
        ultimately show ?thesis by simp
      qed
    qed
  qed
qed

lemma withRetry_bound: "length (snd (withRetry fn maxRetries d)) \<le> nat maxRetries"
  using withRetryLoop_bound [of fn maxRetries 0 d Undefined "[]"] by (simp add: withRetry_def)

lemma backoff_values:
  "backoff 15000 3 = [15000, 22500, 33750]" "backoff 15000 2 = [15000, 22500]" "backoff d 0 = []"
  by (simp_all add: backoff_def upt_conv_Cons)

lemma semanticStage_primary:
  assumes "key \<noteq> []" "\<forall>j<kp. rateLimited (primary j)" "kp \<le> 3" "primary kp = Resolved forbiddenList"
  shows "semanticStage engineSort key primary legacy sm =
          (if length forbiddenList > 0 \<and> length sm > 0
           then zonesToEntities (snd (calculateRedactionZones engineSort sm forbiddenList)) else [],
           backoff 15000 kp, [])"
proof -
  from assms(4) have "\<not> rateLimited (primary kp)" by (simp add: rateLimited_def)
  with assms(2,3) have "withRetry primary 3 15000 = (settled (primary kp), backoff 15000 kp)"
    using withRetry_run [of kp primary 3 15000] by simp
  with assms(1,4) show ?thesis by (simp add: semanticStage_def settled_def)
qed

lemma semanticStage_fallback:
  assumes "key \<noteq> []" "\<forall>j<kp. rateLimited (primary j)" "kp \<le> 3" "primary kp = Rejected err"
    "\<not> rateLimited (primary kp) \<or> kp = 3"
    "\<forall>j<kl. rateLimited (legacy j)" "kl \<le> 2" "\<not> rateLimited (legacy kl) \<or> kl = 2"
  shows "semanticStage engineSort key primary legacy sm =
          (case legacy kl of Resolved legacyEntities \<Rightarrow> legacyEntities | Rejected err2 \<Rightarrow> [],
           backoff 15000 kp, backoff 15000 kl)"
proof -
  from assms(2,3,5) have p: "withRetry primary 3 15000 = (settled (primary kp), backoff 15000 kp)"
    using withRetry_run [of kp primary 3 15000] by auto
  from assms(6,7,8) have l: "withRetry legacy 2 15000 = (settled (legacy kl), backoff 15000 kl)"
    using withRetry_run [of kl legacy 2 15000] by auto
  from assms(1,4) show ?thesis
    by (cases "legacy kl") (simp_all add: semanticStage_def p l settled_def)
qed

lemma markRequired_length [simp]: "length (markRequired rf es) = length es"
  by (induction es) simp_all

lemma markRequired_map:
  "markRequired rf es =
     map (\<lambda>e. if PIIType_string (e_type e) \<in> set rf then e\<lparr>e_masked := False\<rparr> else e) es"
  by (induction es) simp_all

lemma markRequired_nth:
  "i < length es \<Longrightarrow> markRequired rf es ! i =
     (if PIIType_string (e_type (es ! i)) \<in> set rf then (es ! i)\<lparr>e_masked := False\<rparr> else es ! i)"
proof (induction es arbitrary: i)
  case Nil
  then show ?case by simp
next
  case (Cons e es)
  then show ?case by (cases i) simp_all
qed


text \<open>
  Claim C4, as the code has it. The retry wrapper calls the classifier again only after a
  failure that carries the rate-limit signal 429, and at most \<open>maxRetries\<close> times: the bound
  counts the retries, not the attempts. With calls numbered from 0, the wrapper returns the
  outcome of call \<open>k\<close>, after \<open>k\<close> delays, where \<open>k\<close> is the first call that is not
  rate-limited, or \<open>maxRetries\<close> when the calls before it are all rate-limited. The delays
  start at the initial delay and are multiplied by 1.5 after each attempt. A failure without
  the signal is returned at once, with no further call and no delay; a call that is
  rate-limited twice and then succeeds returns the successful result after exactly two
  delays.

  The orchestrator gives the primary forbidden-list call 3 retries, that is up to 4
  attempts, with the delays 15000, 22500 and 33750 ms. When one of these attempts answers,
  the zones of its forbidden list are the result and the legacy call is not made. When the
  primary call fails (at once without the signal, or rate-limited on all 4 attempts) the
  legacy call is made with 2 retries, that is up to 3 attempts, with the delays 15000 and
  22500 ms; its entities are the result, or no entity when it fails too. Without an API key
  no call is made.
\<close>

theorem withRetry_contract:
  "((\<forall>j<k. rateLimited (fn j)) \<and> int k \<le> maxRetries \<and>
      (\<not> rateLimited (fn k) \<or> int k = maxRetries) \<longrightarrow>
        withRetry fn maxRetries d = (settled (fn k), backoff d k)) \<and>
   (fn 0 = Rejected (JsError msg) \<and> \<not> str_includes msg ''429'' \<and> 0 \<le> maxRetries \<longrightarrow>
        withRetry fn maxRetries d = (Rejected (JsError msg), [])) \<and>
   length (snd (withRetry fn maxRetries d)) \<le> nat maxRetries \<and>
   (key \<noteq> [] \<and> (\<forall>j<kp. rateLimited (primary j)) \<and> kp \<le> 3 \<and>
      primary kp = Resolved forbiddenList \<longrightarrow>
        semanticStage engineSort key primary legacy sm =
          (if length forbiddenList > 0 \<and> length sm > 0
           then zonesToEntities (snd (calculateRedactionZones engineSort sm forbiddenList)) else [],
           backoff 15000 kp, [])) \<and>
   (key \<noteq> [] \<and> (\<forall>j<kp. rateLimited (primary j)) \<and> kp \<le> 3 \<and>
      primary kp = Rejected err \<and> (\<not> rateLimited (primary kp) \<or> kp = 3) \<and>
      (\<forall>j<kl. rateLimited (legacy j)) \<and> kl \<le> 2 \<and> (\<not> rateLimited (legacy kl) \<or> kl = 2) \<longrightarrow>
        semanticStage engineSort key primary legacy sm =
          (case legacy kl of Resolved legacyEntities \<Rightarrow> legacyEntities | Rejected err2 \<Rightarrow> [],
           backoff 15000 kp, backoff 15000 kl)) \<and>
   (key = [] \<longrightarrow> semanticStage engineSort key primary legacy sm = ([], [], [])) \<and>
   backoff 15000 3 = [15000, 22500, 33750] \<and> backoff 15000 2 = [15000, 22500]"
proof (intro conjI impI)
  assume "(\<forall>j<k. rateLimited (fn j)) \<and> int k \<le> maxRetries \<and>
      (\<not> rateLimited (fn k) \<or> int k = maxRetries)"
  then show "withRetry fn maxRetries d = (settled (fn k), backoff d k)"
    using withRetry_run [of k fn maxRetries d] by blast
next
  assume h: "fn 0 = Rejected (JsError msg) \<and> \<not> str_includes msg ''429'' \<and> 0 \<le> maxRetries"
  then have "\<not> rateLimited (fn 0)" by (simp add: rateLimited_def)
  with h have "withRetry fn maxRetries d = (settled (fn 0), backoff d 0)"
    using withRetry_run [of 0 fn maxRetries d] by simp
  with h show "withRetry fn maxRetries d = (Rejected (JsError msg), [])"
    by (simp add: settled_def backoff_def)
next
  show "length (snd (withRetry fn maxRetries d)) \<le> nat maxRetries"
    by (rule withRetry_bound)
next
  assume "key \<noteq> [] \<and> (\<forall>j<kp. rateLimited (primary j)) \<and> kp \<le> 3 \<and>
      primary kp = Resolved forbiddenList"
  then show "semanticStage engineSort key primary legacy sm =
          (if length forbiddenList > 0 \<and> length sm > 0
           then zonesToEntities (snd (calculateRedactionZones engineSort sm forbiddenList)) else [],
           backoff 15000 kp, [])"
    using semanticStage_primary [of key kp primary forbiddenList engineSort legacy sm] by blast
next
  assume "key \<noteq> [] \<and> (\<forall>j<kp. rateLimited (primary j)) \<and> kp \<le> 3 \<and>
      primary kp = Rejected err \<and> (\<not> rateLimited (primary kp) \<or> kp = 3) \<and>
      (\<forall>j<kl. rateLimited (legacy j)) \<and> kl \<le> 2 \<and> (\<not> rateLimited (legacy kl) \<or> kl = 2)"
  then show "semanticStage engineSort key primary legacy sm =
          (case legacy kl of Resolved legacyEntities \<Rightarrow> legacyEntities | Rejected err2 \<Rightarrow> [],
           backoff 15000 kp, backoff 15000 kl)"
    using semanticStage_fallback [of key kp primary err kl legacy engineSort sm] by blast
next
  assume "key = []"
  then show "semanticStage engineSort key primary legacy sm = ([], [], [])"
    by (simp add: semanticStage_def)
next
  show "backoff 15000 3 = [15000, 22500, 33750]" by (rule backoff_values)
next
  show "backoff 15000 2 = [15000, 22500]" by (rule backoff_values)
qed

lemma includes_429:
  "str_includes ''Gemini API error 429: Too Many Requests'' ''429''"
  "\<not> str_includes ''Gemini API error 500: Internal'' ''429''"
  by code_simp+

lemma sample_limited_facts:
  "j < n \<Longrightarrow> rateLimited (sample_limited n v j)"
  "\<not> rateLimited (Resolved v)"
  "sample_limited n v n = Resolved v"
  by (simp_all add: sample_limited_def rateLimited_def includes_429)

lemma sample_refused_facts:
  "\<not> rateLimited (Rejected (JsError ''Gemini API error 500: Internal''))"
  "sample_refused k = Rejected (JsError ''Gemini API error 500: Internal'')"
  by (simp_all add: sample_refused_def rateLimited_def includes_429)

theorem withRetry_contract_witness:
  "rateLimited (sample_limited 2 (7::nat) 0) \<and> rateLimited (sample_limited 2 (7::nat) 1) \<and>
   \<not> rateLimited (sample_limited 2 (7::nat) 2) \<and>
   withRetry (sample_limited 2 (7::nat)) 3 15000 = (Resolved 7, [15000, 22500]) \<and>
   \<not> str_includes ''Gemini API error 500: Internal'' ''429'' \<and>
   withRetry (sample_refused :: nat \<Rightarrow> nat promise) 3 15000 =
     (Rejected (JsError ''Gemini API error 500: Internal''), []) \<and>
   semanticStage Array_sort ''key'' (sample_limited 3 [''John Doe'']) sample_refused sample_map =
     (zonesToEntities (snd (calculateRedactionZones Array_sort sample_map [''John Doe''])),
      [15000, 22500, 33750], []) \<and>
   semanticStage Array_sort ''key'' (sample_limited 4 [''John Doe''])
       (sample_limited 2 [sample_entity NAME (9/10) 0 0]) sample_map =
     ([sample_entity NAME (9/10) 0 0], [15000, 22500, 33750], [15000, 22500]) \<and>
   semanticStage Array_sort ''key'' sample_refused
       (sample_limited 3 [sample_entity NAME (9/10) 0 0]) sample_map =
     ([], [], [15000, 22500]) \<and>
   semanticStage Array_sort [] (sample_limited 0 [''John Doe''])
       (sample_limited 0 [sample_entity NAME (9/10) 0 0]) sample_map = ([], [], [])"
proof -
  note c = withRetry_contract
  have b: "backoff 15000 3 = [15000, 22500, 33750]" "backoff 15000 2 = [15000, 22500]"
    "backoff 15000 0 = []"
    by (simp_all add: backoff_values)
  have h: "rateLimited (sample_limited 2 (7::nat) 0) \<and> rateLimited (sample_limited 2 (7::nat) 1) \<and>
      \<not> rateLimited (sample_limited 2 (7::nat) 2)"
    by (simp add: sample_limited_facts)
  have "(\<forall>j<2. rateLimited (sample_limited 2 (7::nat) j)) \<and> int 2 \<le> 3 \<and>
      (\<not> rateLimited (sample_limited 2 (7::nat) 2) \<or> int 2 = 3)"
    by (simp add: sample_limited_facts)
  then have "withRetry (sample_limited 2 (7::nat)) 3 15000 =
      (settled (sample_limited 2 (7::nat) 2), backoff 15000 2)"
    using c [where k = 2 and fn = "sample_limited 2 (7::nat)" and maxRetries = 3 and d = 15000]
    by blast
  then have r: "withRetry (sample_limited 2 (7::nat)) 3 15000 = (Resolved 7, [15000, 22500])"
    by (simp add: sample_limited_facts settled_def b)
  have f: "\<not> str_includes ''Gemini API error 500: Internal'' ''429''"
    by (rule includes_429)
  then have "(sample_refused :: nat \<Rightarrow> nat promise) 0 = Rejected (JsError ''Gemini API error 500: Internal'') \<and>
      \<not> str_includes ''Gemini API error 500: Internal'' ''429'' \<and> (0::int) \<le> 3"
    by (simp add: sample_refused_facts)
  then have g: "withRetry (sample_refused :: nat \<Rightarrow> nat promise) 3 15000 =
      (Rejected (JsError ''Gemini API error 500: Internal''), [])"
    using c [where fn = "sample_refused :: nat \<Rightarrow> nat promise" and maxRetries = 3
        and d = 15000 and msg = "''Gemini API error 500: Internal''"]
    by blast
  have "''key'' \<noteq> [] \<and> (\<forall>j<3. rateLimited (sample_limited 3 [''John Doe''] j)) \<and> (3::nat) \<le> 3 \<and>
      sample_limited 3 [''John Doe''] 3 = Resolved [''John Doe'']"
    by (simp add: sample_limited_facts)
  then have "semanticStage Array_sort ''key'' (sample_limited 3 [''John Doe'']) sample_refused sample_map =
      (if length [''John Doe''] > 0 \<and> length sample_map > 0
       then zonesToEntities (snd (calculateRedactionZones Array_sort sample_map [''John Doe''])) else [],
       backoff 15000 3, [])"
    using c [where key = "''key''" and kp = 3 and primary = "sample_limited 3 [''John Doe'']"
        and forbiddenList = "[''John Doe'']" and engineSort = Array_sort
        and legacy = sample_refused and sm = sample_map]
    by blast
  then have s1: "semanticStage Array_sort ''key'' (sample_limited 3 [''John Doe'']) sample_refused sample_map =
      (zonesToEntities (snd (calculateRedactionZones Array_sort sample_map [''John Doe''])),
       [15000, 22500, 33750], [])"
    by (simp add: b sample_map_def)
  have "''key'' \<noteq> [] \<and> (\<forall>j<3. rateLimited (sample_limited 4 [''John Doe''] j)) \<and> (3::nat) \<le> 3 \<and>
      sample_limited 4 [''John Doe''] 3 = Rejected (JsError ''Gemini API error 429: Too Many Requests'') \<and>
      (\<not> rateLimited (sample_limited 4 [''John Doe''] 3) \<or> (3::nat) = 3) \<and>
      (\<forall>j<2. rateLimited (sample_limited 2 [sample_entity NAME (9/10) 0 0] j)) \<and> (2::nat) \<le> 2 \<and>
      (\<not> rateLimited (sample_limited 2 [sample_entity NAME (9/10) 0 0] 2) \<or> (2::nat) = 2)"
    by (simp add: sample_limited_facts) (simp add: sample_limited_def)
  then have "semanticStage Array_sort ''key'' (sample_limited 4 [''John Doe''])
       (sample_limited 2 [sample_entity NAME (9/10) 0 0]) sample_map =
      (case sample_limited 2 [sample_entity NAME (9/10) 0 0] 2 of
         Resolved legacyEntities \<Rightarrow> legacyEntities | Rejected err2 \<Rightarrow> [],
       backoff 15000 3, backoff 15000 2)"
    using c [where key = "''key''" and kp = 3 and primary = "sample_limited 4 [''John Doe'']"
        and err = "JsError ''Gemini API error 429: Too Many Requests''" and kl = 2
        and legacy = "sample_limited 2 [sample_entity NAME (9/10) 0 0]"
        and engineSort = Array_sort and sm = sample_map]
    by blast
  then have s2: "semanticStage Array_sort ''key'' (sample_limited 4 [''John Doe''])
       (sample_limited 2 [sample_entity NAME (9/10) 0 0]) sample_map =
      ([sample_entity NAME (9/10) 0 0], [15000, 22500, 33750], [15000, 22500])"
    by (simp add: b sample_limited_facts)
  have "''key'' \<noteq> [] \<and> (\<forall>j<0. rateLimited ((sample_refused :: nat \<Rightarrow> string list promise) j)) \<and>
      (0::nat) \<le> 3 \<and>
      (sample_refused :: nat \<Rightarrow> string list promise) 0 =
        Rejected (JsError ''Gemini API error 500: Internal'') \<and>
      (\<not> rateLimited ((sample_refused :: nat \<Rightarrow> string list promise) 0) \<or> (0::nat) = 3) \<and>
      (\<forall>j<2. rateLimited (sample_limited 3 [sample_entity NAME (9/10) 0 0] j)) \<and> (2::nat) \<le> 2 \<and>
      (\<not> rateLimited (sample_limited 3 [sample_entity NAME (9/10) 0 0] 2) \<or> (2::nat) = 2)"
    by (simp add: sample_limited_facts sample_refused_facts)
  then have "semanticStage Array_sort ''key'' sample_refused
       (sample_limited 3 [sample_entity NAME (9/10) 0 0]) sample_map =
      (case sample_limited 3 [sample_entity NAME (9/10) 0 0] 2 of
         Resolved legacyEntities \<Rightarrow> legacyEntities | Rejected err2 \<Rightarrow> [],
       backoff 15000 0, backoff 15000 2)"
    using c [where key = "''key''" and kp = 0 and primary = sample_refused
        and err = "JsError ''Gemini API error 500: Internal''" and kl = 2
        and legacy = "sample_limited 3 [sample_entity NAME (9/10) 0 0]"
        and engineSort = Array_sort and sm = sample_map]
    by blast
  then have s3: "semanticStage Array_sort ''key'' sample_refused
       (sample_limited 3 [sample_entity NAME (9/10) 0 0]) sample_map =
      ([], [], [15000, 22500])"
    by (simp add: b sample_limited_def)
  have s4: "semanticStage Array_sort [] (sample_limited 0 [''John Doe''])
       (sample_limited 0 [sample_entity NAME (9/10) 0 0]) sample_map = ([], [], [])"
    using c [where key = "[]" and engineSort = Array_sort
        and primary = "sample_limited 0 [''John Doe'']"
        and legacy = "sample_limited 0 [sample_entity NAME (9/10) 0 0]" and sm = sample_map]
    by blast
  from h r f g s1 s2 s3 s4 show ?thesis by blast
qed

text \<open>
  Against the claim as written, which bounds the attempts by 3 and by 2: a call that is
  rate-limited three times is attempted a fourth time with the bound 3, and its answer is
  returned after the three delays; with the bound 2, the answer of the third attempt is
  returned. In the orchestrator, the forbidden list answered by the fourth attempt of the
  primary call is the one that is matched, and when all four attempts are rate-limited the
  legacy call answers on its third attempt.
\<close>

theorem withRetry_attempts_counterexample:
  "withRetry (sample_limited 3 (7::nat)) 3 15000 = (Resolved 7, [15000, 22500, 33750]) \<and>
   withRetry (sample_limited 2 (7::nat)) 2 15000 = (Resolved 7, [15000, 22500]) \<and>
   semanticStage Array_sort ''key'' (sample_limited 3 [''John Doe'']) sample_refused sample_map =
     (zonesToEntities (snd (calculateRedactionZones Array_sort sample_map [''John Doe''])),
      [15000, 22500, 33750], []) \<and>
   semanticStage Array_sort ''key'' (sample_limited 4 [''John Doe''])
       (sample_limited 2 [sample_entity NAME (9/10) 0 0]) sample_map =
     ([sample_entity NAME (9/10) 0 0], [15000, 22500, 33750], [15000, 22500])"
proof -
  have "withRetry (sample_limited 3 (7::nat)) 3 15000 =
      (settled (sample_limited 3 (7::nat) 3), backoff 15000 3)"
    by (rule withRetry_run) (simp_all add: sample_limited_facts)
  then have a: "withRetry (sample_limited 3 (7::nat)) 3 15000 = (Resolved 7, [15000, 22500, 33750])"
    by (simp add: sample_limited_facts settled_def backoff_values)
  have "withRetry (sample_limited 2 (7::nat)) 2 15000 =
      (settled (sample_limited 2 (7::nat) 2), backoff 15000 2)"
    by (rule withRetry_run) (simp_all add: sample_limited_facts)
  then have b: "withRetry (sample_limited 2 (7::nat)) 2 15000 = (Resolved 7, [15000, 22500])"
    by (simp add: sample_limited_facts settled_def backoff_values)
  have "semanticStage Array_sort ''key'' (sample_limited 3 [''John Doe'']) sample_refused sample_map =
      (if length [''John Doe''] > 0 \<and> length sample_map > 0
       then zonesToEntities (snd (calculateRedactionZones Array_sort sample_map [''John Doe''])) else [],
       backoff 15000 3, [])"
    by (rule semanticStage_primary) (simp_all add: sample_limited_facts)
  then have c: "semanticStage Array_sort ''key'' (sample_limited 3 [''John Doe'']) sample_refused sample_map =
      (zonesToEntities (snd (calculateRedactionZones Array_sort sample_map [''John Doe''])),
       [15000, 22500, 33750], [])"
    by (simp add: backoff_values sample_map_def)
  have "semanticStage Array_sort ''key'' (sample_limited 4 [''John Doe''])
       (sample_limited 2 [sample_entity NAME (9/10) 0 0]) sample_map =
      (case sample_limited 2 [sample_entity NAME (9/10) 0 0] 2 of
         Resolved legacyEntities \<Rightarrow> legacyEntities | Rejected err2 \<Rightarrow> [],
       backoff 15000 3, backoff 15000 2)"
    by (rule semanticStage_fallback
          [where err = "JsError ''Gemini API error 429: Too Many Requests''"])
       (simp_all add: sample_limited_facts, simp add: sample_limited_def)
  then have d: "semanticStage Array_sort ''key'' (sample_limited 4 [''John Doe''])
       (sample_limited 2 [sample_entity NAME (9/10) 0 0]) sample_map =
      ([sample_entity NAME (9/10) 0 0], [15000, 22500, 33750], [15000, 22500])"
    by (simp add: backoff_values sample_limited_facts)
  from a b c d show ?thesis by blast
qed

text \<open>
  Claim C5. The output of the pipeline is the list of the entities that survive
  deduplication and confidence filtering, in the same order and of the same length, each
  with \<open>masked = false\<close> when its category is in \<open>requiredFields\<close>, whatever its layer and
  whatever \<open>masked\<close> value the layer set, and unchanged otherwise. So every entity of the
  output whose category is in \<open>requiredFields\<close> has \<open>masked = false\<close>, and an entity whose
  category is not in \<open>requiredFields\<close> is returned as its layer made it.
\<close>

theorem required_fields_unmasked:
  "mergeLayers l1 nlp me thr rf =
     map (\<lambda>e. if PIIType_string (e_type e) \<in> set rf then e\<lparr>e_masked := False\<rparr> else e)
       (filteredEntities l1 nlp me thr) \<and>
   length (mergeLayers l1 nlp me thr rf) = length (filteredEntities l1 nlp me thr) \<and>
   (i < length (filteredEntities l1 nlp me thr) \<longrightarrow>
     (PIIType_string (e_type (filteredEntities l1 nlp me thr ! i)) \<in> set rf \<longrightarrow>
        mergeLayers l1 nlp me thr rf ! i = (filteredEntities l1 nlp me thr ! i)\<lparr>e_masked := False\<rparr>) \<and>
     (PIIType_string (e_type (filteredEntities l1 nlp me thr ! i)) \<notin> set rf \<longrightarrow>
        mergeLayers l1 nlp me thr rf ! i = filteredEntities l1 nlp me thr ! i) \<and>
     (PIIType_string (e_type (mergeLayers l1 nlp me thr rf ! i)) \<in> set rf \<longrightarrow>
        \<not> e_masked (mergeLayers l1 nlp me thr rf ! i)))"
proof (intro conjI impI)
  have eq: "mergeLayers l1 nlp me thr rf = markRequired rf (filteredEntities l1 nlp me thr)"
    by (simp add: mergeLayers_def filteredEntities_def)
  show "mergeLayers l1 nlp me thr rf =
     map (\<lambda>e. if PIIType_string (e_type e) \<in> set rf then e\<lparr>e_masked := False\<rparr> else e)
       (filteredEntities l1 nlp me thr)"
    unfolding eq by (rule markRequired_map)
  show "length (mergeLayers l1 nlp me thr rf) = length (filteredEntities l1 nlp me thr)"
    by (simp add: eq)
  {
    assume i: "i < length (filteredEntities l1 nlp me thr)"
    {
      assume "PIIType_string (e_type (filteredEntities l1 nlp me thr ! i)) \<in> set rf"
      then show "mergeLayers l1 nlp me thr rf ! i =
          (filteredEntities l1 nlp me thr ! i)\<lparr>e_masked := False\<rparr>"
        by (simp add: eq markRequired_nth [OF i])
    }
    {
      assume "PIIType_string (e_type (filteredEntities l1 nlp me thr ! i)) \<notin> set rf"
      then show "mergeLayers l1 nlp me thr rf ! i = filteredEntities l1 nlp me thr ! i"
        by (simp add: eq markRequired_nth [OF i])
    }
    {
      assume "PIIType_string (e_type (mergeLayers l1 nlp me thr rf ! i)) \<in> set rf"
      then show "\<not> e_masked (mergeLayers l1 nlp me thr rf ! i)"
        by (simp add: eq markRequired_nth [OF i] split: if_splits)
    }
  }
qed

lemma sample_mergeLayers:
  "mergeLayers [sample_entity PAN 1 0 0] [] [sample_entity NAME (9/10) 0 100] (1/2) [''PAN''] =
     [(sample_entity PAN 1 0 0)\<lparr>e_masked := False\<rparr>, sample_entity NAME (9/10) 0 100]"
  "filteredEntities [sample_entity PAN 1 0 0] [] [sample_entity NAME (9/10) 0 100] (1/2) =
     [sample_entity PAN 1 0 0, sample_entity NAME (9/10) 0 100]"
  by (simp_all add: mergeLayers_def filteredEntities_def deduplicateEntities_def Array_sort_def
      boxesOverlap_def sample_entity_def)

theorem required_fields_unmasked_witness:
  "0 < length (filteredEntities [sample_entity PAN 1 0 0] [] [sample_entity NAME (9/10) 0 100] (1/2)) \<and>
   PIIType_string (e_type
     (filteredEntities [sample_entity PAN 1 0 0] [] [sample_entity NAME (9/10) 0 100] (1/2) ! 0))
     \<in> set [''PAN''] \<and>
   e_masked (filteredEntities [sample_entity PAN 1 0 0] [] [sample_entity NAME (9/10) 0 100] (1/2) ! 0) \<and>
   mergeLayers [sample_entity PAN 1 0 0] [] [sample_entity NAME (9/10) 0 100] (1/2) [''PAN''] ! 0 =
     (filteredEntities [sample_entity PAN 1 0 0] [] [sample_entity NAME (9/10) 0 100] (1/2) ! 0)
       \<lparr>e_masked := False\<rparr> \<and>
   \<not> e_masked
     (mergeLayers [sample_entity PAN 1 0 0] [] [sample_entity NAME (9/10) 0 100] (1/2) [''PAN''] ! 0) \<and>
   1 < length (filteredEntities [sample_entity PAN 1 0 0] [] [sample_entity NAME (9/10) 0 100] (1/2)) \<and>
   PIIType_string (e_type
     (filteredEntities [sample_entity PAN 1 0 0] [] [sample_entity NAME (9/10) 0 100] (1/2) ! 1))
     \<notin> set [''PAN''] \<and>
   mergeLayers [sample_entity PAN 1 0 0] [] [sample_entity NAME (9/10) 0 100] (1/2) [''PAN''] ! 1 =
     filteredEntities [sample_entity PAN 1 0 0] [] [sample_entity NAME (9/10) 0 100] (1/2) ! 1"
proof -
  have h: "0 < length (filteredEntities [sample_entity PAN 1 0 0] [] [sample_entity NAME (9/10) 0 100] (1/2))"
    and h1: "1 < length (filteredEntities [sample_entity PAN 1 0 0] [] [sample_entity NAME (9/10) 0 100] (1/2))"
    unfolding sample_mergeLayers by simp_all
  have t: "PIIType_string (e_type
     (filteredEntities [sample_entity PAN 1 0 0] [] [sample_entity NAME (9/10) 0 100] (1/2) ! 0))
     \<in> set [''PAN'']"
    and m: "e_masked (filteredEntities [sample_entity PAN 1 0 0] [] [sample_entity NAME (9/10) 0 100] (1/2) ! 0)"
    unfolding sample_mergeLayers by (simp_all add: sample_entity_def)
  have u: "PIIType_string (e_type
     (filteredEntities [sample_entity PAN 1 0 0] [] [sample_entity NAME (9/10) 0 100] (1/2) ! 1))
     \<notin> set [''PAN'']"
    unfolding sample_mergeLayers by (simp add: sample_entity_def)
  have t': "PIIType_string (e_type
     (mergeLayers [sample_entity PAN 1 0 0] [] [sample_entity NAME (9/10) 0 100] (1/2) [''PAN''] ! 0))
     \<in> set [''PAN'']"
    unfolding sample_mergeLayers by (simp add: sample_entity_def)
  from required_fields_unmasked [of "[sample_entity PAN 1 0 0]" "[]"
      "[sample_entity NAME (9/10) 0 100]" "1/2" "[''PAN'']" 0]
    required_fields_unmasked [of "[sample_entity PAN 1 0 0]" "[]"
      "[sample_entity NAME (9/10) 0 100]" "1/2" "[''PAN'']" 1] h h1 t m u t'
  show ?thesis by blast
qed

section \<open>The phrase-to-zone matcher\<close>



lemma markRedact_length [simp]: "length (markRedact sm ks) = length sm"
  by (induction ks arbitrary: sm) simp_all

lemma markRedact_append: "markRedact sm (ks @ ls) = markRedact (markRedact sm ks) ls"
  by (induction ks arbitrary: sm) simp_all

lemma map_update_same: "f y = f (xs ! k) \<Longrightarrow> map f (xs[k := y]) = map f xs"
  by (cases "k < length xs") (simp_all add: map_update list_update_same_conv list_update_beyond)

lemma markRedact_map:
  assumes "\<And>e. f (e\<lparr>sm_redact := True\<rparr>) = f e"
  shows "map f (markRedact sm ks) = map f sm"
  by (induction ks arbitrary: sm) (simp_all add: map_update_same assms)

lemma markRedact_nth:
  assumes "\<And>e. f (e\<lparr>sm_redact := True\<rparr>) = f e" "k < length sm"
  shows "f (markRedact sm ks ! k) = f (sm ! k)"
proof -
  have "map f (markRedact sm ks) ! k = map f sm ! k"
    by (simp add: markRedact_map assms(1))
  then show ?thesis using assms(2) by simp
qed

lemma markRedact_keeps:
  "k < length sm \<Longrightarrow> sm_redact (sm ! k) \<Longrightarrow> sm_redact (markRedact sm ks ! k)"
proof (induction ks arbitrary: sm)
  case Nil
  then show ?case by simp
next
  case (Cons a ks)
  have "sm_redact (sm[a := (sm ! a)\<lparr>sm_redact := True\<rparr>] ! k)"
    using Cons.prems by (cases "k = a") simp_all
  with Cons show ?case by simp
qed

lemma markRedact_sets:
  "k < length sm \<Longrightarrow> k \<in> set ks \<Longrightarrow> sm_redact (markRedact sm ks ! k)"
proof (induction ks arbitrary: sm)
  case Nil
  then show ?case by simp
next
  case (Cons a ks)
  show ?case
  proof (cases "k = a")
    case True
    with Cons.prems show ?thesis by (simp add: markRedact_keeps)
  next
    case False
    with Cons show ?thesis by simp
  qed
qed

lemma allMatch_markRedact:
  "i + length tokens \<le> length sm \<Longrightarrow> allMatch (markRedact sm ks) tokens i = allMatch sm tokens i"
  by (simp add: allMatch_def list_all_iff markRedact_nth [where f = sm_text])

lemma slice_map: "map f (slice xs i j) = slice (map f xs) i j"
  by (simp add: slice_def take_map drop_map)

lemma zoneOf_cong:
  assumes "map sm_left a = map sm_left b" "map sm_top a = map sm_top b"
    "map (\<lambda>e. sm_left e + sm_width e) a = map (\<lambda>e. sm_left e + sm_width e) b"
    "map (\<lambda>e. sm_top e + sm_height e) a = map (\<lambda>e. sm_top e + sm_height e) b"
    "map sm_text a = map sm_text b"
  shows "zoneOf a original p = zoneOf b original p"
  unfolding zoneOf_def using assms by simp

lemma zoneOf_slice_markRedact:
  "zoneOf (slice (markRedact sm ks) i j) original p = zoneOf (slice sm i j) original p"
  by (rule zoneOf_cong) (simp_all add: slice_map markRedact_map)


lemma fold_exactStep:
  assumes "\<forall>i \<in> set is. i + length tokens \<le> length sm" "tokens \<noteq> []"
  shows "fold (exactStep tokens original) is (markRedact sm ks, zs) =
     (markRedact sm (ks @ concat (map (\<lambda>i. [i ..< i + length tokens]) (filter (allMatch sm tokens) is))),
      zs @ map (\<lambda>i. zoneOf (slice sm i (i + length tokens)) original (sm_pageIndex (sm ! i)))
             (filter (allMatch sm tokens) is))"
  using assms(1)
proof (induction "is" arbitrary: ks zs)
  case Nil
  then show ?case by simp
next
  case (Cons i "is")
  from Cons.prems have i: "i + length tokens \<le> length sm" by simp
  with assms(2) have il: "i < length sm" by (cases tokens) auto
  have step: "exactStep tokens original i (markRedact sm ks, zs) =
     (if allMatch sm tokens i
      then (markRedact sm (ks @ [i ..< i + length tokens]),
            zs @ [zoneOf (slice sm i (i + length tokens)) original (sm_pageIndex (sm ! i))])
      else (markRedact sm ks, zs))"
    using i il
    by (simp add: exactStep_def allMatch_markRedact zoneOf_slice_markRedact markRedact_append
        markRedact_nth [where f = sm_pageIndex])
  show ?case
  proof (cases "allMatch sm tokens i")
    case True
    then show ?thesis using Cons.IH [of "ks @ [i ..< i + length tokens]"] Cons.prems
      by (simp add: step)
  next
    case False
    then show ?thesis using Cons.IH [of ks zs] Cons.prems by (simp add: step)
  qed
qed

lemma exactPass_eq:
  assumes "tokens \<noteq> []"
  shows "exactPass tokens original (sm, zones) =
     (markRedact sm (concat (map (\<lambda>i. [i ..< i + length tokens]) (windows sm tokens))),
      zones @ map (\<lambda>i. zoneOf (slice sm i (i + length tokens)) original (sm_pageIndex (sm ! i)))
                (windows sm tokens))"
proof -
  have "\<forall>i \<in> set [0 ..< Suc (length sm) - length tokens]. i + length tokens \<le> length sm"
    by auto
  from fold_exactStep [OF this assms, of original "[]" zones]
  show ?thesis by (simp add: exactPass_def windows_def)
qed


lemma windows_markRedact: "windows (markRedact sm ks) tokens = windows sm tokens"
  unfolding windows_def by (rule filter_cong) (auto simp: allMatch_markRedact)

lemma in_windows:
  "i + length tokens \<le> length sm \<Longrightarrow> allMatch sm tokens i \<Longrightarrow> i \<in> set (windows sm tokens)"
  by (auto simp: windows_def)

lemma markRedact_refl: "\<exists>ks. sm = markRedact sm ks"
  by (rule exI [of _ "[]"]) simp

lemma exactPass_marks:
  "tokens \<noteq> [] \<Longrightarrow> \<exists>ks. fst (exactPass tokens original st) = markRedact (fst st) ks"
  using exactPass_eq [of tokens original "fst st" "snd st"] by auto

lemma fallbackLoop_marks:
  "\<exists>ks. fst (fallbackLoop tokens original is st) = markRedact (fst st) ks"
proof (induction "is")
  case Nil
  show ?case by (simp add: markRedact_refl)
next
  case (Cons i "is")
  have "\<exists>ks. markRedact (fst st) m = markRedact (fst st) ks" for m by blast
  with Cons show ?case by (simp add: Let_def)
qed

lemma phraseStep_marks:
  assumes "snd phrase \<noteq> []"
  shows "\<exists>ks. fst (phraseStep phrase st) = markRedact (fst st) ks"
proof -
  obtain ks where ks: "fst (exactPass (snd phrase) (fst phrase) st) = markRedact (fst st) ks"
    using exactPass_marks [OF assms] by blast
  obtain ls where ls: "fst (fallbackLoop (snd phrase) (fst phrase)
        [0 ..< length (fst (exactPass (snd phrase) (fst phrase) st))]
        (exactPass (snd phrase) (fst phrase) st)) =
      markRedact (fst (exactPass (snd phrase) (fst phrase) st)) ls"
    using fallbackLoop_marks by blast
  show ?thesis
  proof (cases "list_ex (\<lambda>z. z_matchedPhrase z = fst phrase) (snd (exactPass (snd phrase) (fst phrase) st))")
    case True
    then show ?thesis using ks by (auto simp: phraseStep_def Let_def)
  next
    case False
    have "fst (phraseStep phrase st) = markRedact (fst st) (ks @ ls)"
      using False ls ks by (simp add: phraseStep_def Let_def markRedact_append)
    then show ?thesis by blast
  qed
qed

lemma fold_phraseStep_marks:
  "\<forall>p \<in> set ps. snd p \<noteq> [] \<Longrightarrow> \<exists>ks. fst (fold phraseStep ps st) = markRedact (fst st) ks"
proof (induction ps arbitrary: st)
  case Nil
  show ?case by (simp add: markRedact_refl)
next
  case (Cons p ps)
  obtain ks where ks: "fst (phraseStep p st) = markRedact (fst st) ks"
    using phraseStep_marks [of p st] Cons.prems by auto
  obtain ls where "fst (fold phraseStep ps (phraseStep p st)) = markRedact (fst (phraseStep p st)) ls"
    using Cons.IH [of "phraseStep p st"] Cons.prems by auto
  then have "fst (fold phraseStep (p # ps) st) = markRedact (fst st) (ks @ ls)"
    by (simp add: ks markRedact_append)
  then show ?case by blast
qed

lemma singleStep_marks: "\<exists>ks. fst (singleStep singleWords i st) = markRedact (fst st) ks"
proof -
  have b: "\<exists>ks. (fst st)[i := (fst st ! i)\<lparr>sm_redact := True\<rparr>] = markRedact (fst st) ks"
    by (rule exI [of _ "[i]"]) simp
  show ?thesis
    unfolding singleStep_def Let_def using b by (simp add: markRedact_refl)
qed

lemma fold_singleStep_marks:
  "\<exists>ks. fst (fold (singleStep singleWords) is st) = markRedact (fst st) ks"
proof (induction "is" arbitrary: st)
  case Nil
  show ?case by (simp add: markRedact_refl)
next
  case (Cons i "is")
  obtain ks where ks: "fst (singleStep singleWords i st) = markRedact (fst st) ks"
    using singleStep_marks by blast
  obtain ls where "fst (fold (singleStep singleWords) is (singleStep singleWords i st)) =
      markRedact (fst (singleStep singleWords i st)) ls"
    using Cons.IH by blast
  then have "fst (fold (singleStep singleWords) (i # is) st) = markRedact (fst st) (ks @ ls)"
    by (simp add: ks markRedact_append)
  then show ?case by blast
qed

lemma partitionForbidden_tokens:
  "\<forall>p \<in> set multiPhrases. snd p \<noteq> [] \<Longrightarrow>
   \<forall>p \<in> set (snd (partitionForbidden forbiddenList singleWords multiPhrases)). snd p \<noteq> []"
proof (induction forbiddenList arbitrary: singleWords multiPhrases)
  case Nil
  then show ?case by simp
next
  case (Cons phrase rest)
  define ct where "ct = filter (\<lambda>t. length t > 0)
      (map clean (filter (\<lambda>t. length t > 0) (split_ws (trim phrase))))"
  have step: "partitionForbidden (phrase # rest) singleWords multiPhrases =
     (if length ct = 0 then partitionForbidden rest singleWords multiPhrases
      else if length ct = 1 then partitionForbidden rest (singleWords @ [ct ! 0]) multiPhrases
      else partitionForbidden rest singleWords (multiPhrases @ [(trim phrase, ct)]))"
    unfolding ct_def partitionForbidden.simps Let_def ..
  show ?case
  proof (cases "length ct = 0 \<or> length ct = 1")
    case True
    then show ?thesis unfolding step
      using Cons.IH [OF Cons.prems, of singleWords] Cons.IH [OF Cons.prems, of "singleWords @ [ct ! 0]"]
      by (auto simp del: length_0_conv)
  next
    case False
    then have "\<forall>p \<in> set (multiPhrases @ [(trim phrase, ct)]). snd p \<noteq> []"
      using Cons.prems by auto
    from Cons.IH [OF this, of singleWords] False show ?thesis unfolding step by simp
  qed
qed

lemma window_redacted:
  assumes mp: "(original, tokens) \<in> set (snd (partitionForbidden forbiddenList [] []))"
    and win: "i + length tokens \<le> length sm" "allMatch sm tokens i"
    and k: "i \<le> k" "k < i + length tokens"
  shows "sm_redact (fst (calculateRedactionZones engineSort sm forbiddenList) ! k)"
proof -
  obtain singleWords multiPhrases where part:
    "partitionForbidden forbiddenList [] [] = (singleWords, multiPhrases)"
    by (cases "partitionForbidden forbiddenList [] []")
  have ne: "\<forall>p \<in> set multiPhrases. snd p \<noteq> []"
    using partitionForbidden_tokens [of "[]" forbiddenList "[]"] part by simp
  from mp part obtain ps1 ps2 where ps: "multiPhrases = ps1 @ (original, tokens) # ps2"
    by (auto dest: split_list)
  have tne: "tokens \<noteq> []" using ne ps by auto
  have kl: "k < length sm" using win k by simp
  define sta where "sta = fold phraseStep ps1 (sm, [])"
  obtain ka where ka: "fst sta = markRedact sm ka"
    using fold_phraseStep_marks [of ps1 "(sm, [])"] ne ps by (auto simp: sta_def)
  define stb where "stb = exactPass tokens original sta"
  have "fst stb = markRedact (fst sta)
      (concat (map (\<lambda>i. [i ..< i + length tokens]) (windows (fst sta) tokens)))"
    using exactPass_eq [OF tne, of original "fst sta" "snd sta"] by (simp add: stb_def)
  moreover have "k \<in> set (concat (map (\<lambda>i. [i ..< i + length tokens]) (windows (fst sta) tokens)))"
    using in_windows [OF win] k by (auto simp: ka windows_markRedact)
  ultimately have fb: "sm_redact (fst stb ! k)"
    using kl by (simp add: markRedact_sets ka)
  have lb: "length (fst stb) = length sm"
    using exactPass_marks [OF tne, of original sta] by (auto simp: stb_def ka)
  define stc where "stc = phraseStep (original, tokens) sta"
  have "\<exists>ls. fst stc = markRedact (fst stb) ls"
  proof (cases "list_ex (\<lambda>z. z_matchedPhrase z = original) (snd stb)")
    case True
    then show ?thesis
      by (simp add: stc_def stb_def phraseStep_def Let_def markRedact_refl)
  next
    case False
    then show ?thesis using fallbackLoop_marks [of tokens original "[0 ..< length (fst stb)]" stb]
      by (auto simp: stc_def stb_def phraseStep_def Let_def)
  qed
  then have fc: "sm_redact (fst stc ! k)" and lc: "length (fst stc) = length sm"
    using fb lb kl by (auto simp: markRedact_keeps)
  define std where "std = fold phraseStep ps2 stc"
  have "\<exists>ls. fst std = markRedact (fst stc) ls"
    unfolding std_def using fold_phraseStep_marks [of ps2 stc] ne ps by auto
  then have fd: "sm_redact (fst std ! k)" and ld: "length (fst std) = length sm"
    using fc lc kl by (auto simp: markRedact_keeps)
  have std: "std = fold phraseStep multiPhrases (sm, [])"
    by (simp add: std_def stc_def sta_def ps)
  obtain ls where "fst (fold (singleStep singleWords) [0 ..< length (fst std)] std) = markRedact (fst std) ls"
    using fold_singleStep_marks by blast
  then have "sm_redact (fst (fold (singleStep singleWords) [0 ..< length (fst std)] std) ! k)"
    using fd ld kl by (simp add: markRedact_keeps)
  then show ?thesis
    by (simp add: calculateRedactionZones_def part std Let_def)
qed



lemma clean_ex: "clean ''John'' = ''john''" "clean ''Doe'' = ''doe''" "clean ''lives'' = ''lives''"
  "clean ''in'' = ''in''" "clean ''Pune'' = ''pune''"
  by (simp_all add: clean_def toLowerCase_def toLowerChar_def isUpperCase_def isLowerAlnum_def)

lemma trim_ex: "trim ''John Doe'' = ''John Doe''"
  by (simp add: trim_def isWhiteSpace_def)

lemma split_ex: "split_ws ''John Doe'' = [''John'', ''Doe'']"
  by (simp add: split_ws_def isWhiteSpace_def)

lemma part_ex: "partitionForbidden [''John Doe''] [] [] = ([], [(''John Doe'', [''john'', ''doe''])])"
  by (simp add: trim_ex split_ex clean_ex)

lemma Math_min_Cons: "Math_min (x # xs) = fold min xs x"
  unfolding Math_min_def by (rule Min.set_eq_fold)
lemma Math_max_Cons: "Math_max (x # xs) = fold max xs x"
  unfolding Math_max_def by (rule Max.set_eq_fold)

lemma upt4: "[0 ..< 4] = [0, 1, 2, 3]" "[0..<2] = [0, 1]" "[0..<5] = [0,1,2,3,4]"
  by (simp_all add: upt_conv_Cons)

lemma singleStep_none: "singleStep [] i st = st"
  by (simp add: singleStep_def Let_def)

lemma fold_singleStep_none: "fold (singleStep []) ks st = st"
  by (induction ks) (simp_all add: singleStep_none)

lemma mergeAdjacentZones_single: "mergeAdjacentZones engineSort [z] = [z]"
  by (simp add: mergeAdjacentZones_def)

lemma exactPass_ex:
  assumes "sm_text e0 = ''John''" "sm_text e1 = ''Doe''" "sm_text e2 = ''lives''"
    "sm_text e3 = ''in''" "sm_text e4 = ''Pune''"
  shows "exactPass [''john'', ''doe''] ''John Doe'' ([e0, e1, e2, e3, e4], []) =
     ([e0\<lparr>sm_redact := True\<rparr>, e1\<lparr>sm_redact := True\<rparr>, e2, e3, e4],
      [zoneOf [e0, e1] ''John Doe'' (sm_pageIndex e0)])"
proof -
  have a0: "allMatch [e0, e1, e2, e3, e4] [''john'', ''doe''] 0"
    using assms by (simp add: allMatch_def upt4 clean_ex)
  have s0: "exactStep [''john'', ''doe''] ''John Doe'' 0 ([e0, e1, e2, e3, e4], []) =
     ([e0\<lparr>sm_redact := True\<rparr>, e1\<lparr>sm_redact := True\<rparr>, e2, e3, e4],
      [zoneOf [e0, e1] ''John Doe'' (sm_pageIndex e0)])"
    using a0 by (simp add: exactStep_def slice_def upt4)
  have sk: "exactStep [''john'', ''doe''] ''John Doe'' i
       ([e0\<lparr>sm_redact := True\<rparr>, e1\<lparr>sm_redact := True\<rparr>, e2, e3, e4], zs) =
       ([e0\<lparr>sm_redact := True\<rparr>, e1\<lparr>sm_redact := True\<rparr>, e2, e3, e4], zs)"
    if "i = 1 \<or> i = 2 \<or> i = 3" for i zs
    using that assms by (auto simp add: exactStep_def allMatch_def upt4 clean_ex)
  show ?thesis
    by (simp add: exactPass_def upt4 s0 sk)
qed

lemma zoneOf_pair:
  "zoneOf [e0, e1] original p =
     \<lparr>z_x = min (sm_left e0) (sm_left e1) - 5,
      z_y = min (sm_top e0) (sm_top e1) - 5,
      z_w = (max (sm_left e0 + sm_width e0) (sm_left e1 + sm_width e1) - min (sm_left e0) (sm_left e1)) + 10,
      z_h = (max (sm_top e0 + sm_height e0) (sm_top e1 + sm_height e1) - min (sm_top e0) (sm_top e1)) + 10,
      z_pageIndex = p,
      z_matchedPhrase = original,
      z_matchedWords = [sm_text e0, sm_text e1]\<rparr>"
  by (simp add: zoneOf_def Math_min_Cons Math_max_Cons REDACTION_PADDING_def Let_def min.commute max.commute)

lemma zoneOf_phrase [simp]: "z_matchedPhrase (zoneOf m original p) = original"
  by (simp add: zoneOf_def Let_def)

lemma john_doe:
  assumes "sm_text e0 = ''John''" "sm_text e1 = ''Doe''" "sm_text e2 = ''lives''"
    "sm_text e3 = ''in''" "sm_text e4 = ''Pune''"
  shows "calculateRedactionZones engineSort [e0, e1, e2, e3, e4] [''John Doe''] =
     ([e0\<lparr>sm_redact := True\<rparr>, e1\<lparr>sm_redact := True\<rparr>, e2, e3, e4],
      [zoneOf [e0, e1] ''John Doe'' (sm_pageIndex e0)])"
  unfolding calculateRedactionZones_def part_ex
  by (simp add: phraseStep_def exactPass_ex [OF assms] Let_def
      fold_singleStep_none mergeAdjacentZones_single)


text \<open>
  Claim C3. In the multi-word pass of the phrase-to-zone matcher, every exact window match
  of a phrase sets \<open>redact\<close> on each entry of the window and pushes one zone: the bounding
  rectangle of the window's entries, moved out by the padding of 5 pixels on all four sides.
  The flags are still set in the spatial map when \<open>calculateRedactionZones\<close> returns. For the
  tokens John, Doe, lives, in, Pune (of any geometry) and the forbidden list \<open>["John Doe"]\<close>
  the result is exactly one zone, over the tokens 0 and 1, and these two entries are marked.
  Neither depends on the engine's sort: the flags are set before the zones are merged, and a
  single zone is not sorted.
\<close>

theorem exact_window_zone:
  "(tokens \<noteq> [] \<longrightarrow>
      exactPass tokens original (sm, zones) =
        (markRedact sm (concat (map (\<lambda>i. [i ..< i + length tokens]) (windows sm tokens))),
         zones @ map (\<lambda>i. zoneOf (slice sm i (i + length tokens)) original (sm_pageIndex (sm ! i)))
                   (windows sm tokens))) \<and>
   (z_x (zoneOf matched original p) = Math_min (map sm_left matched) - 5 \<and>
    z_y (zoneOf matched original p) = Math_min (map sm_top matched) - 5 \<and>
    z_x (zoneOf matched original p) + z_w (zoneOf matched original p) =
      Math_max (map (\<lambda>e. sm_left e + sm_width e) matched) + 5 \<and>
    z_y (zoneOf matched original p) + z_h (zoneOf matched original p) =
      Math_max (map (\<lambda>e. sm_top e + sm_height e) matched) + 5) \<and>
   ((original, tokens) \<in> set (snd (partitionForbidden forbiddenList [] [])) \<and>
    i + length tokens \<le> length sm \<and> allMatch sm tokens i \<and> i \<le> k \<and> k < i + length tokens \<longrightarrow>
      sm_redact (fst (calculateRedactionZones engineSort sm forbiddenList) ! k)) \<and>
   (sm_text e0 = ''John'' \<and> sm_text e1 = ''Doe'' \<and> sm_text e2 = ''lives'' \<and>
    sm_text e3 = ''in'' \<and> sm_text e4 = ''Pune'' \<longrightarrow>
      calculateRedactionZones engineSort [e0, e1, e2, e3, e4] [''John Doe''] =
        ([e0\<lparr>sm_redact := True\<rparr>, e1\<lparr>sm_redact := True\<rparr>, e2, e3, e4],
         [\<lparr>z_x = min (sm_left e0) (sm_left e1) - 5,
           z_y = min (sm_top e0) (sm_top e1) - 5,
           z_w = (max (sm_left e0 + sm_width e0) (sm_left e1 + sm_width e1) -
                  min (sm_left e0) (sm_left e1)) + 10,
           z_h = (max (sm_top e0 + sm_height e0) (sm_top e1 + sm_height e1) -
                  min (sm_top e0) (sm_top e1)) + 10,
           z_pageIndex = sm_pageIndex e0,
           z_matchedPhrase = ''John Doe'',
           z_matchedWords = [''John'', ''Doe'']\<rparr>]))"
proof (intro conjI impI)
  assume "tokens \<noteq> []"
  then show "exactPass tokens original (sm, zones) =
        (markRedact sm (concat (map (\<lambda>i. [i ..< i + length tokens]) (windows sm tokens))),
         zones @ map (\<lambda>i. zoneOf (slice sm i (i + length tokens)) original (sm_pageIndex (sm ! i)))
                   (windows sm tokens))"
    by (rule exactPass_eq)
next
  show "z_x (zoneOf matched original p) = Math_min (map sm_left matched) - 5"
    by (simp add: zoneOf_def Let_def REDACTION_PADDING_def)
next
  show "z_y (zoneOf matched original p) = Math_min (map sm_top matched) - 5"
    by (simp add: zoneOf_def Let_def REDACTION_PADDING_def)
next
  show "z_x (zoneOf matched original p) + z_w (zoneOf matched original p) =
      Math_max (map (\<lambda>e. sm_left e + sm_width e) matched) + 5"
    by (simp add: zoneOf_def Let_def REDACTION_PADDING_def)
next
  show "z_y (zoneOf matched original p) + z_h (zoneOf matched original p) =
      Math_max (map (\<lambda>e. sm_top e + sm_height e) matched) + 5"
    by (simp add: zoneOf_def Let_def REDACTION_PADDING_def)
next
  assume "(original, tokens) \<in> set (snd (partitionForbidden forbiddenList [] [])) \<and>
    i + length tokens \<le> length sm \<and> allMatch sm tokens i \<and> i \<le> k \<and> k < i + length tokens"
  then show "sm_redact (fst (calculateRedactionZones engineSort sm forbiddenList) ! k)"
    using window_redacted [of original tokens forbiddenList i sm k engineSort] by blast
next
  assume h: "sm_text e0 = ''John'' \<and> sm_text e1 = ''Doe'' \<and> sm_text e2 = ''lives'' \<and>
    sm_text e3 = ''in'' \<and> sm_text e4 = ''Pune''"
  then have "calculateRedactionZones engineSort [e0, e1, e2, e3, e4] [''John Doe''] =
     ([e0\<lparr>sm_redact := True\<rparr>, e1\<lparr>sm_redact := True\<rparr>, e2, e3, e4],
      [zoneOf [e0, e1] ''John Doe'' (sm_pageIndex e0)])"
    using john_doe [of e0 e1 e2 e3 e4 engineSort] by blast
  with h show "calculateRedactionZones engineSort [e0, e1, e2, e3, e4] [''John Doe''] =
        ([e0\<lparr>sm_redact := True\<rparr>, e1\<lparr>sm_redact := True\<rparr>, e2, e3, e4],
         [\<lparr>z_x = min (sm_left e0) (sm_left e1) - 5,
           z_y = min (sm_top e0) (sm_top e1) - 5,
           z_w = (max (sm_left e0 + sm_width e0) (sm_left e1 + sm_width e1) -
                  min (sm_left e0) (sm_left e1)) + 10,
           z_h = (max (sm_top e0 + sm_height e0) (sm_top e1 + sm_height e1) -
                  min (sm_top e0) (sm_top e1)) + 10,
           z_pageIndex = sm_pageIndex e0,
           z_matchedPhrase = ''John Doe'',
           z_matchedWords = [''John'', ''Doe'']\<rparr>])"
    by (simp add: zoneOf_pair)
qed

lemma sample_partition:
  "(''John Doe'', [''john'', ''doe'']) \<in> set (snd (partitionForbidden [''John Doe''] [] []))"
  unfolding part_ex by simp

lemma sample_allMatch: "allMatch sample_map [''john'', ''doe''] 0"
  by (simp add: allMatch_def upt4 clean_ex sample_map_def sample_entry_def)

theorem exact_window_zone_witness:
  "(''John Doe'', [''john'', ''doe'']) \<in> set (snd (partitionForbidden [''John Doe''] [] [])) \<and>
   0 + length [''john'', ''doe''] \<le> length sample_map \<and>
   allMatch sample_map [''john'', ''doe''] 0 \<and> (0::nat) \<le> 1 \<and> 1 < 0 + length [''john'', ''doe''] \<and>
   sm_redact (fst (calculateRedactionZones Array_sort sample_map [''John Doe'']) ! 1) \<and>
   calculateRedactionZones Array_sort sample_map [''John Doe''] =
     ([(sample_entry ''John'' 10)\<lparr>sm_redact := True\<rparr>, (sample_entry ''Doe'' 60)\<lparr>sm_redact := True\<rparr>,
       sample_entry ''lives'' 110, sample_entry ''in'' 160, sample_entry ''Pune'' 210],
      [\<lparr>z_x = 5, z_y = 15, z_w = 100, z_h = 22, z_pageIndex = 0,
        z_matchedPhrase = ''John Doe'', z_matchedWords = [''John'', ''Doe'']\<rparr>])"
proof -
  have h: "(''John Doe'', [''john'', ''doe'']) \<in> set (snd (partitionForbidden [''John Doe''] [] [])) \<and>
     0 + length [''john'', ''doe''] \<le> length sample_map \<and>
     allMatch sample_map [''john'', ''doe''] 0 \<and> (0::nat) \<le> 1 \<and> 1 < 0 + length [''john'', ''doe'']"
    using sample_partition sample_allMatch by (simp add: sample_map_def)
  with exact_window_zone [of "[''john'', ''doe'']" "''John Doe''" sample_map "[]" "[]" 0
      "[''John Doe'']" 0 1 Array_sort]
  have r: "sm_redact (fst (calculateRedactionZones Array_sort sample_map [''John Doe'']) ! 1)" by blast
  have t: "sm_text (sample_entry ''John'' 10) = ''John'' \<and> sm_text (sample_entry ''Doe'' 60) = ''Doe'' \<and>
      sm_text (sample_entry ''lives'' 110) = ''lives'' \<and> sm_text (sample_entry ''in'' 160) = ''in'' \<and>
      sm_text (sample_entry ''Pune'' 210) = ''Pune''"
    by (simp add: sample_entry_def)
  with exact_window_zone [of "[]" "[]" "[]" "[]" "[]" 0 "[]" 0 0 Array_sort
      "sample_entry ''John'' 10" "sample_entry ''Doe'' 60" "sample_entry ''lives'' 110"
      "sample_entry ''in'' 160" "sample_entry ''Pune'' 210"]
  have "calculateRedactionZones Array_sort
      [sample_entry ''John'' 10, sample_entry ''Doe'' 60, sample_entry ''lives'' 110,
       sample_entry ''in'' 160, sample_entry ''Pune'' 210] [''John Doe''] =
     ([(sample_entry ''John'' 10)\<lparr>sm_redact := True\<rparr>, (sample_entry ''Doe'' 60)\<lparr>sm_redact := True\<rparr>,
       sample_entry ''lives'' 110, sample_entry ''in'' 160, sample_entry ''Pune'' 210],
      [\<lparr>z_x = min (sm_left (sample_entry ''John'' 10)) (sm_left (sample_entry ''Doe'' 60)) - 5,
        z_y = min (sm_top (sample_entry ''John'' 10)) (sm_top (sample_entry ''Doe'' 60)) - 5,
        z_w = (max (sm_left (sample_entry ''John'' 10) + sm_width (sample_entry ''John'' 10))
                 (sm_left (sample_entry ''Doe'' 60) + sm_width (sample_entry ''Doe'' 60)) -
               min (sm_left (sample_entry ''John'' 10)) (sm_left (sample_entry ''Doe'' 60))) + 10,
        z_h = (max (sm_top (sample_entry ''John'' 10) + sm_height (sample_entry ''John'' 10))
                 (sm_top (sample_entry ''Doe'' 60) + sm_height (sample_entry ''Doe'' 60)) -
               min (sm_top (sample_entry ''John'' 10)) (sm_top (sample_entry ''Doe'' 60))) + 10,
        z_pageIndex = sm_pageIndex (sample_entry ''John'' 10),
        z_matchedPhrase = ''John Doe'',
        z_matchedWords = [''John'', ''Doe'']\<rparr>])"
    by blast
  moreover have "min (sm_left (sample_entry ''John'' 10)) (sm_left (sample_entry ''Doe'' 60)) - 5 = 5"
    and "min (sm_top (sample_entry ''John'' 10)) (sm_top (sample_entry ''Doe'' 60)) - 5 = 15"
    and "(max (sm_left (sample_entry ''John'' 10) + sm_width (sample_entry ''John'' 10))
                 (sm_left (sample_entry ''Doe'' 60) + sm_width (sample_entry ''Doe'' 60)) -
               min (sm_left (sample_entry ''John'' 10)) (sm_left (sample_entry ''Doe'' 60))) + 10 = 100"
    and "(max (sm_top (sample_entry ''John'' 10) + sm_height (sample_entry ''John'' 10))
                 (sm_top (sample_entry ''Doe'' 60) + sm_height (sample_entry ''Doe'' 60)) -
               min (sm_top (sample_entry ''John'' 10)) (sm_top (sample_entry ''Doe'' 60))) + 10 = 22"
    and "sm_pageIndex (sample_entry ''John'' 10) = 0"
    by (simp_all add: sample_entry_def)
  ultimately have z: "calculateRedactionZones Array_sort sample_map [''John Doe''] =
     ([(sample_entry ''John'' 10)\<lparr>sm_redact := True\<rparr>, (sample_entry ''Doe'' 60)\<lparr>sm_redact := True\<rparr>,
       sample_entry ''lives'' 110, sample_entry ''in'' 160, sample_entry ''Pune'' 210],
      [\<lparr>z_x = 5, z_y = 15, z_w = 100, z_h = 22, z_pageIndex = 0,
        z_matchedPhrase = ''John Doe'', z_matchedWords = [''John'', ''Doe'']\<rparr>])"
    by (simp only: sample_map_def)
  from h r z show ?thesis by blast
qed

section \<open>Zone merging\<close>



















lemma zoneCompare_antisym: "zoneCompare b a = - zoneCompare a b"
  by (simp add: zoneCompare_def abs_minus_commute)

lemma zoneCompare_refl: "zoneCompare a a = 0"
  by (simp add: zoneCompare_def)

lemma zoneCompare_pair_consistent: "consistent zoneCompare (set [a, b])"
proof -
  have "zoneCompare b a = - zoneCompare a b" by (rule zoneCompare_antisym)
  then show ?thesis
    by (auto simp: consistent_def zoneCompare_refl)
qed

lemma zoneCompare_not_consistent:
  "\<not> consistent zoneCompare
       (set [sample_zone ''A'' 100 0, sample_zone ''B'' 50 4, sample_zone ''C'' 0 8])"
proof
  assume k: "consistent zoneCompare
       (set [sample_zone ''A'' 100 0, sample_zone ''B'' 50 4, sample_zone ''C'' 0 8])"
  have "zoneCompare (sample_zone ''C'' 0 8) (sample_zone ''B'' 50 4) < 0"
    and "zoneCompare (sample_zone ''B'' 50 4) (sample_zone ''A'' 100 0) < 0"
    and "\<not> zoneCompare (sample_zone ''C'' 0 8) (sample_zone ''A'' 100 0) < 0"
    by (simp_all add: zoneCompare_def sample_zone_def)
  with consistentD(4) [OF k, of "sample_zone ''C'' 0 8" "sample_zone ''B'' 50 4"
      "sample_zone ''A'' 100 0"]
  show False by simp
qed

lemma mergeAdjacentZones_pair:
  "conforming engineSort \<Longrightarrow>
   mergeAdjacentZones engineSort [a, b] = mergeAdjacentZones Array_sort [a, b]"
  using zoneCompare_pair_consistent [of a b] conforming_consistent [of engineSort zoneCompare "[a, b]"]
  by (simp add: mergeAdjacentZones_def)











section \<open>The response parser, the deterministic matcher and the merged boxes\<close>



lemma extract_shape:
  assumes "extractJsonArray raw = Some t"
  shows "\<exists>pre post. raw = pre @ t @ post \<and> CHR ''['' \<notin> set pre \<and> CHR '']'' \<notin> set post \<and>
     hd t = CHR ''['' \<and> last t = CHR '']'' \<and> length t \<ge> 2"
proof -
  define s where "s = dropWhile (\<lambda>c. c \<noteq> CHR ''['') raw"
  define pre where "pre = takeWhile (\<lambda>c. c \<noteq> CHR ''['') raw"
  define post where "post = rev (takeWhile (\<lambda>c. c \<noteq> CHR '']'') (rev s))"
  from assms have sne: "s \<noteq> []" and cl: "CHR '']'' \<in> set (tl s)"
    and t: "t = rev (dropWhile (\<lambda>c. c \<noteq> CHR '']'') (rev s))"
    by (auto simp: extractJsonArray_def Let_def s_def split: if_splits)
  have raw: "raw = pre @ s" by (simp add: pre_def s_def)
  have "s = rev (takeWhile (\<lambda>c. c \<noteq> CHR '']'') (rev s) @ dropWhile (\<lambda>c. c \<noteq> CHR '']'') (rev s))"
    by (simp only: takeWhile_dropWhile_id rev_rev_ident)
  then have s: "s = t @ post" by (simp only: rev_append t post_def)
  have p1: "CHR ''['' \<notin> set pre" unfolding pre_def by (auto dest: set_takeWhileD)
  have p2: "CHR '']'' \<notin> set post" unfolding post_def by (auto dest: set_takeWhileD)
  have hs: "hd s = CHR ''[''" using sne hd_dropWhile [of "\<lambda>c. c \<noteq> CHR ''[''" raw] by (simp add: s_def)
  from cl have "CHR '']'' \<in> set s" by (cases s) auto
  then have dne: "dropWhile (\<lambda>c. c \<noteq> CHR '']'') (rev s) \<noteq> []" by (simp add: dropWhile_eq_Nil_conv)
  then have tne: "t \<noteq> []" by (simp add: t)
  have lt: "last t = CHR '']''"
    using dne hd_dropWhile [of "\<lambda>c. c \<noteq> CHR '']''" "rev s"] by (simp add: t last_rev)
  have ht: "hd t = CHR ''[''" using hs s tne by (cases t) auto
  have "length t \<ge> 2"
  proof (cases t)
    case Nil
    with tne show ?thesis by simp
  next
    case (Cons a u)
    with ht lt have "u \<noteq> []" by (cases u) auto
    with Cons show ?thesis by (cases u) auto
  qed
  with raw s p1 p2 ht lt show ?thesis by auto
qed

lemma extract_bracketed:
  assumes "CHR ''['' \<notin> set pre" "CHR '']'' \<notin> set post"
  shows "extractJsonArray (pre @ CHR ''['' # body @ CHR '']'' # post) = Some (CHR ''['' # body @ [CHR '']''])"
proof -
  have d: "dropWhile (\<lambda>c. c \<noteq> CHR ''['') (pre @ CHR ''['' # body @ CHR '']'' # post) =
      CHR ''['' # body @ CHR '']'' # post"
    using assms(1) by (subst dropWhile_append2) auto
  have r: "dropWhile (\<lambda>c. c \<noteq> CHR '']'') (rev post @ CHR '']'' # rev body @ [CHR ''['']) =
      CHR '']'' # rev body @ [CHR ''['']"
    using assms(2) by (subst dropWhile_append2) auto
  show ?thesis
    unfolding extractJsonArray_def d Let_def by (simp add: r)
qed

lemma extract_none_no_open: "CHR ''['' \<notin> set raw \<Longrightarrow> extractJsonArray raw = None"
  by (simp add: extractJsonArray_def Let_def dropWhile_eq_Nil_conv)

lemma filter_strings:
  "map JString (concat (map (\<lambda>item. case item of
       JString s \<Rightarrow> (if length (trim s) > 0 then [s] else []) | _ \<Rightarrow> []) items)) =
   filter isForbiddenEntry items"
  by (induction items) (auto simp: isForbiddenEntry_def split: json.splits)

lemma scoreMatch_spec:
  "scoreMatch vV lV pV m = (spec_valid vV lV pV m, spec_confidence vV lV pV m)"
  by (cases "m_type m") (simp_all add: scoreMatch_def spec_valid_def spec_confidence_def Let_def)

lemma spec_confidence_floor: "\<not> (\<not> spec_valid vV lV pV m \<and> spec_confidence vV lV pV m < 5/10)"
  by (cases "m_type m") (simp_all add: spec_valid_def spec_confidence_def)

lemma layer1Loop_map:
  "layer1Loop vV lV pV fullText words page ms =
     map (\<lambda>m. \<lparr>e_type = m_type m, e_value = m_raw m, e_confidence = spec_confidence vV lV pV m,
                e_bbox = mapTextToBBox (m_startIndex m) (m_endIndex m) fullText words page,
                e_masked = True, e_layer = 1\<rparr>) ms"
proof (induction ms)
  case Nil
  then show ?case by simp
next
  case (Cons m ms)
  then show ?case using spec_confidence_floor [of vV lV pV m]
    by (simp add: scoreMatch_spec)
qed

lemma layer1Loop_single_discard:
  "(layer1Loop vV lV pV fullText words page [m] = []) =
   (\<not> spec_valid vV lV pV m \<and> spec_confidence vV lV pV m < 5/10)"
  by (simp add: scoreMatch_spec)


lemma Math_min_image: "Math_min (map f xs) = Min (f ` set xs)"
  by (simp add: Math_min_def)
lemma Math_max_image: "Math_max (map f xs) = Max (f ` set xs)"
  by (simp add: Math_max_def)

lemma mergeWordBBoxes_union:
  "bbox_x (mergeWordBBoxes ws p) = Min ((\<lambda>w. bbox_x (w_bbox w)) ` set ws) \<and>
   bbox_y (mergeWordBBoxes ws p) = Min ((\<lambda>w. bbox_y (w_bbox w)) ` set ws) \<and>
   bbox_x (mergeWordBBoxes ws p) + bbox_w (mergeWordBBoxes ws p) =
     Max ((\<lambda>w. bbox_x (w_bbox w) + bbox_w (w_bbox w)) ` set ws) \<and>
   bbox_y (mergeWordBBoxes ws p) + bbox_h (mergeWordBBoxes ws p) =
     Max ((\<lambda>w. bbox_y (w_bbox w) + bbox_h (w_bbox w)) ` set ws) \<and>
   bbox_pageIndex (mergeWordBBoxes ws p) = p"
  by (simp add: mergeWordBBoxes_def Let_def Math_min_image Math_max_image)

lemma zoneOf_union:
  "z_x (zoneOf matched original q) = Min (sm_left ` set matched) - 5 \<and>
   z_y (zoneOf matched original q) = Min (sm_top ` set matched) - 5 \<and>
   z_x (zoneOf matched original q) + z_w (zoneOf matched original q) =
     Max ((\<lambda>e. sm_left e + sm_width e) ` set matched) + 5 \<and>
   z_y (zoneOf matched original q) + z_h (zoneOf matched original q) =
     Max ((\<lambda>e. sm_top e + sm_height e) ` set matched) + 5"
  by (simp add: zoneOf_def Let_def REDACTION_PADDING_def Math_min_image Math_max_image)


lemma greedyNext_words:
  "matched \<noteq> [] \<Longrightarrow> set matched \<subseteq> set words \<Longrightarrow> \<forall>j \<in> set js. j < length words \<Longrightarrow>
   greedyNext words cleanedTokens js matched next \<noteq> [] \<and>
   set (greedyNext words cleanedTokens js matched next) \<subseteq> set words"
  by (induction js arbitrary: matched "next") auto

lemma partialMatch_words:
  "partialMatch words cleanedTokens p is = Some b \<Longrightarrow> \<forall>i \<in> set is. i < length words \<Longrightarrow>
   \<exists>ws. ws \<noteq> [] \<and> set ws \<subseteq> set words \<and> b = mergeWordBBoxes ws p"
proof (induction "is")
  case Nil
  then show ?case by simp
next
  case (Cons i "is")
  let ?m = "greedyNext words cleanedTokens [i + 1 ..< length words] [words ! i] 1"
  from Cons.prems(2) have il: "i < length words" by simp
  have m: "?m \<noteq> [] \<and> set ?m \<subseteq> set words"
    by (rule greedyNext_words) (use il in auto)
  show ?case
  proof (cases "clean_layer1 (w_text (words ! i)) \<noteq> cleanedTokens ! 0 \<or>
      \<not> length ?m \<ge> ceil_ratio (length cleanedTokens) 1 2")
    case True
    then have "partialMatch words cleanedTokens p is = Some b"
      using Cons.prems(1) by (auto simp: Let_def split: if_splits)
    with Cons.IH Cons.prems(2) show ?thesis by simp
  next
    case False
    then have "b = mergeWordBBoxes ?m p"
      using Cons.prems(1) by (auto simp: Let_def split: if_splits)
    with m show ?thesis by blast
  qed
qed

lemma slice_words:
  "i + n \<le> length words \<Longrightarrow> 0 < n \<Longrightarrow>
   slice words i (i + n) \<noteq> [] \<and> set (slice words i (i + n)) \<subseteq> set words"
proof -
  assume a: "i + n \<le> length words" "0 < n"
  then have "length (slice words i (i + n)) = n" by (simp add: slice_def)
  with a(2) have "slice words i (i + n) \<noteq> []" by auto
  moreover have "set (slice words i (i + n)) \<subseteq> set words"
    unfolding slice_def by (meson set_take_subset set_drop_subset subset_trans)
  ultimately show ?thesis by simp
qed

lemma strategy1_words:
  assumes "strategy1 matchedText words p = Some b"
  shows "\<exists>ws. ws \<noteq> [] \<and> set ws \<subseteq> set words \<and> b = mergeWordBBoxes ws p"
proof -
  define ct where "ct = filter (\<lambda>t. length t > 0)
      (map clean_layer1 (filter (\<lambda>t. length t > 0) (split_ws matchedText)))"
  from assms have ne: "length ct > 0"
    and r: "(case find (wordsMatch words ct) [0 ..< Suc (length words) - length ct] of
              Some i \<Rightarrow> Some (mergeWordBBoxes (slice words i (i + length ct)) p)
            | None \<Rightarrow> partialMatch words ct p [0 ..< length words]) = Some b"
    unfolding strategy1_def ct_def Let_def by (auto split: if_splits)
  show ?thesis
  proof (cases "find (wordsMatch words ct) [0 ..< Suc (length words) - length ct]")
    case None
    with r have "partialMatch words ct p [0 ..< length words] = Some b" by simp
    then show ?thesis by (rule partialMatch_words) simp
  next
    case (Some i)
    then have "i \<in> set [0 ..< Suc (length words) - length ct]"
      by (auto simp: find_Some_iff)
    then have "i + length ct \<le> length words" by auto
    from slice_words [OF this ne] Some r show ?thesis by auto
  qed
qed

lemma strategy2_words:
  "set matchingWords \<subseteq> S \<Longrightarrow> set ws \<subseteq> S \<Longrightarrow>
   set (strategy2 fullText s e ws pos matchingWords) \<subseteq> S"
proof (induction ws arbitrary: pos matchingWords)
  case Nil
  then show ?case by simp
next
  case (Cons w ws)
  have a: "set ws \<subseteq> S" and b: "set (matchingWords @ [w]) \<subseteq> S" using Cons.prems by auto
  show ?case
    using Cons.IH [OF Cons.prems(1) a] Cons.IH [OF b a] Cons.prems(1) b
    by (simp add: Let_def split: option.splits del: set_append)
qed

lemma mapTextToBBox_words:
  assumes "strategy1 (trim (substring fullText s e)) words p \<noteq> None \<or>
      strategy2 fullText s e words 0 [] \<noteq> []"
  shows "\<exists>ws. ws \<noteq> [] \<and> set ws \<subseteq> set words \<and> mapTextToBBox s e fullText words p = mergeWordBBoxes ws p"
proof (cases "strategy1 (trim (substring fullText s e)) words p")
  case (Some b)
  from strategy1_words [OF this] Some show ?thesis by (simp add: mapTextToBBox_def)
next
  case None
  with assms have ne: "strategy2 fullText s e words 0 [] \<noteq> []" by simp
  have "set (strategy2 fullText s e words 0 []) \<subseteq> set words"
    by (rule strategy2_words) simp_all
  with ne None show ?thesis by (auto simp: mapTextToBBox_def Let_def)
qed


text \<open>
  Claim C9, as the code has it. From the response text on, the parser of the semantic
  classifier's answer never throws. It extracts the part of the text from the first \<open>[\<close> to
  the last \<open>]\<close>; this is the JSON array when the prose before it has no \<open>[\<close> and the prose
  after it no \<open>]\<close>. When there is no such part, or \<open>JSON.parse\<close> rejects it, the result is the
  empty list. Of the parsed entries, the strings that are not blank after trimming are
  returned, in order; all others are left out.
\<close>

theorem parseForbiddenList_permissive:
  "(extractJsonArray raw = None \<longrightarrow> parseForbiddenList JSON_parse raw = []) \<and>
   (CHR ''['' \<notin> set raw \<longrightarrow> extractJsonArray raw = None) \<and>
   (extractJsonArray raw = Some t \<longrightarrow>
      (\<exists>pre post. raw = pre @ t @ post \<and> CHR ''['' \<notin> set pre \<and> CHR '']'' \<notin> set post \<and>
         hd t = CHR ''['' \<and> last t = CHR '']'' \<and> length t \<ge> 2)) \<and>
   (CHR ''['' \<notin> set pre \<and> CHR '']'' \<notin> set post \<longrightarrow>
      extractJsonArray (pre @ CHR ''['' # body @ CHR '']'' # post) = Some (CHR ''['' # body @ [CHR '']''])) \<and>
   (extractJsonArray raw = Some t \<and> JSON_parse t = None \<longrightarrow>
      parseForbiddenList JSON_parse raw = []) \<and>
   (extractJsonArray raw = Some t \<and> JSON_parse t = Some items \<longrightarrow>
      map JString (parseForbiddenList JSON_parse raw) = filter isForbiddenEntry items)"
proof (intro conjI impI)
  assume "extractJsonArray raw = None"
  then show "parseForbiddenList JSON_parse raw = []" by (simp add: parseForbiddenList_def)
next
  assume "CHR ''['' \<notin> set raw"
  then show "extractJsonArray raw = None" by (rule extract_none_no_open)
next
  assume "extractJsonArray raw = Some t"
  then show "\<exists>pre post. raw = pre @ t @ post \<and> CHR ''['' \<notin> set pre \<and> CHR '']'' \<notin> set post \<and>
         hd t = CHR ''['' \<and> last t = CHR '']'' \<and> length t \<ge> 2"
    by (rule extract_shape)
next
  assume "CHR ''['' \<notin> set pre \<and> CHR '']'' \<notin> set post"
  then show "extractJsonArray (pre @ CHR ''['' # body @ CHR '']'' # post) =
      Some (CHR ''['' # body @ [CHR '']''])"
    by (simp add: extract_bracketed)
next
  assume "extractJsonArray raw = Some t \<and> JSON_parse t = None"
  then show "parseForbiddenList JSON_parse raw = []" by (simp add: parseForbiddenList_def)
next
  assume "extractJsonArray raw = Some t \<and> JSON_parse t = Some items"
  then have e: "extractJsonArray raw = Some t" and p: "JSON_parse t = Some items" by simp_all
  show "map JString (parseForbiddenList JSON_parse raw) = filter isForbiddenEntry items"
    by (simp only: parseForbiddenList_def e p option.case filter_strings)
qed

lemma sample_extract:
  "extractJsonArray ''Sure: [\"Male\", 7, \" \"] done.'' = Some ''[\"Male\", 7, \" \"]''"
  "extractJsonArray ''I found nothing.'' = None"
  "CHR ''['' \<notin> set ''I found nothing.''"
  "CHR ''['' \<notin> set ''Sure: '' \<and> CHR '']'' \<notin> set '' done.''"
  "extractJsonArray ''[Male]'' = Some ''[Male]'' \<and> sample_parse ''[Male]'' = None"
  by code_simp+

theorem parseForbiddenList_permissive_witness:
  "extractJsonArray ''I found nothing.'' = None \<and>
   parseForbiddenList sample_parse ''I found nothing.'' = [] \<and>
   CHR ''['' \<notin> set ''I found nothing.'' \<and>
   extractJsonArray ''Sure: [\"Male\", 7, \" \"] done.'' = Some ''[\"Male\", 7, \" \"]'' \<and>
   (\<exists>pre post. ''Sure: [\"Male\", 7, \" \"] done.'' = pre @ ''[\"Male\", 7, \" \"]'' @ post \<and>
      CHR ''['' \<notin> set pre \<and> CHR '']'' \<notin> set post \<and> hd ''[\"Male\", 7, \" \"]'' = CHR ''['' \<and>
      last ''[\"Male\", 7, \" \"]'' = CHR '']'' \<and> length ''[\"Male\", 7, \" \"]'' \<ge> 2) \<and>
   CHR ''['' \<notin> set ''Sure: '' \<and> CHR '']'' \<notin> set '' done.'' \<and>
   extractJsonArray (''Sure: '' @ CHR ''['' # ''Male'' @ CHR '']'' # '' done.'') =
     Some (CHR ''['' # ''Male'' @ [CHR '']'']) \<and>
   extractJsonArray ''[Male]'' = Some ''[Male]'' \<and> sample_parse ''[Male]'' = None \<and>
   parseForbiddenList sample_parse ''[Male]'' = [] \<and>
   sample_parse ''[\"Male\", 7, \" \"]'' = Some [JString ''Male'', JNumber 7, JString '' ''] \<and>
   map JString (parseForbiddenList sample_parse ''Sure: [\"Male\", 7, \" \"] done.'') =
     filter isForbiddenEntry [JString ''Male'', JNumber 7, JString '' '']"
proof -
  have p: "sample_parse ''[\"Male\", 7, \" \"]'' = Some [JString ''Male'', JNumber 7, JString '' '']"
    by (simp add: sample_parse_def)
  from parseForbiddenList_permissive [of "''Sure: [\"Male\", 7, \" \"] done.''" sample_parse
      "''[\"Male\", 7, \" \"]''" "''Sure: ''" "'' done.''" "''Male''"
      "[JString ''Male'', JNumber 7, JString '' '']"]
    parseForbiddenList_permissive [of "''I found nothing.''" sample_parse]
    parseForbiddenList_permissive [of "''[Male]''" sample_parse "''[Male]''"]
    sample_extract p
  show ?thesis by blast
qed

text \<open>
  Against the claim as written: in the answer \<open>["Male"] [end]\<close> the first JSON array is
  \<open>["Male"]\<close>, which parses to one phrase; the text extracted is the whole answer, which is
  not JSON, and the result is empty.
\<close>

theorem extractJsonArray_first_array_counterexample:
  "extractJsonArray ''[\"Male\"] [end]'' = Some ''[\"Male\"] [end]'' \<and>
   extractJsonArray ''[\"Male\"] [end]'' \<noteq> Some ''[\"Male\"]'' \<and>
   sample_parse ''[\"Male\"]'' = Some [JString ''Male''] \<and>
   parseForbiddenList sample_parse ''[\"Male\"] [end]'' = []"
  by code_simp

text \<open>
  Claim C6. For every raw regex match the deterministic matcher emits the confidence 1.0
  when the category's validator accepts the value, and otherwise the floor of the category
  (AADHAAR 0.6, card number 0.5, PAN 0.7); a category without a validator gets 0.85, phone
  0.9. A match is discarded exactly when it is invalid and its demoted confidence is below
  0.5; no floor is, so one entity is emitted per match, in order.
\<close>

theorem layer1_confidence:
  "map e_confidence (runLayer1Detection findAllRegexMatches vV lV pV fullText words pageIndex) =
     map (spec_confidence vV lV pV) (findAllRegexMatches fullText) \<and>
   map e_type (runLayer1Detection findAllRegexMatches vV lV pV fullText words pageIndex) =
     map m_type (findAllRegexMatches fullText) \<and>
   ((layer1Loop vV lV pV fullText words pageIndex [m] = []) =
      (\<not> spec_valid vV lV pV m \<and> spec_confidence vV lV pV m < 5/10)) \<and>
   (scoreMatch vV lV pV m = (spec_valid vV lV pV m, spec_confidence vV lV pV m))"
proof (intro conjI)
  show "map e_confidence (runLayer1Detection findAllRegexMatches vV lV pV fullText words pageIndex) =
     map (spec_confidence vV lV pV) (findAllRegexMatches fullText)"
    by (simp add: runLayer1Detection_def layer1Loop_map comp_def)
  show "map e_type (runLayer1Detection findAllRegexMatches vV lV pV fullText words pageIndex) =
     map m_type (findAllRegexMatches fullText)"
    by (simp add: runLayer1Detection_def layer1Loop_map comp_def)
  show "(layer1Loop vV lV pV fullText words pageIndex [m] = []) =
      (\<not> spec_valid vV lV pV m \<and> spec_confidence vV lV pV m < 5/10)"
    by (rule layer1Loop_single_discard)
  show "scoreMatch vV lV pV m = (spec_valid vV lV pV m, spec_confidence vV lV pV m)"
    by (rule scoreMatch_spec)
qed

theorem layer1_confidence_witness:
  "map e_confidence (runLayer1Detection (\<lambda>t. [sample_match AADHAAR, sample_match PHONE])
       (\<lambda>v. False) (\<lambda>v. False) (\<lambda>v. False) ''1234 1234 1234'' [] 0) = [6/10, 9/10]"
proof -
  have "map (spec_confidence (\<lambda>v. False) (\<lambda>v. False) (\<lambda>v. False))
      [sample_match AADHAAR, sample_match PHONE] = [6/10, 9/10]"
    by (simp add: spec_confidence_def spec_valid_def sample_match_def)
  with layer1_confidence [of "\<lambda>t. [sample_match AADHAAR, sample_match PHONE]"
      "\<lambda>v. False" "\<lambda>v. False" "\<lambda>v. False" "''1234 1234 1234''" "[]" 0]
  show ?thesis by presburger
qed

text \<open>
  Claim C7, at the legacy finder. For the phrase John Doe broken over two lines, John at
  \<open>x = 500\<close> on one line and Doe at \<open>x = 10\<close> on the next, \<open>findBBoxForString\<close> returns the left
  edge 500 and the width -450: the left edge of the first token and the right edge of the
  last one, where the smallest left edge of the two tokens is 10 and their largest right
  edge 540. On the same two words \<open>mergeWordBBoxes\<close> of the alignment engine returns the
  min/max union, 530 wide from the left edge 10. It does so for every list of words (lemma
  \<open>mergeWordBBoxes_union\<close>), and the zone of the phrase-to-zone matcher is the min/max union
  of the matched entries, moved out by the padding (lemma \<open>zoneOf_union\<close>).
\<close>

theorem findBBoxForString_not_union:
  "findBBoxForString ''John Doe'' [sample_word ''John'' 500 0, sample_word ''Doe'' 10 20] 0 =
     Some \<lparr>bbox_x = 500, bbox_y = 0, bbox_w = - 450, bbox_h = 30, bbox_pageIndex = 0\<rparr> \<and>
   mergeWordBBoxes [sample_word ''John'' 500 0, sample_word ''Doe'' 10 20] 0 =
     \<lparr>bbox_x = 10, bbox_y = 0, bbox_w = 530, bbox_h = 30, bbox_pageIndex = 0\<rparr> \<and>
   Math_min (map (\<lambda>w. bbox_x (w_bbox w)) [sample_word ''John'' 500 0, sample_word ''Doe'' 10 20]) = 10 \<and>
   Math_max (map (\<lambda>w. bbox_x (w_bbox w) + bbox_w (w_bbox w))
     [sample_word ''John'' 500 0, sample_word ''Doe'' 10 20]) = 540"
  by code_simp

text \<open>
  Claim C2, as the code has it. When the token-sequence strategy (exact window and partial
  fallback) and the character-offset strategy both locate no token, \<open>mapTextToBBox\<close> does not
  fail: it returns the fixed box of 100 by 20 pixels at the origin of the requested page. In
  every other case it returns the min/max union of one or more of the OCR words.
\<close>

theorem mapTextToBBox_fallback:
  "(strategy1 (trim (substring fullText startIdx endIdx)) words pageIndex = None \<and>
    strategy2 fullText startIdx endIdx words 0 [] = [] \<longrightarrow>
      mapTextToBBox startIdx endIdx fullText words pageIndex =
        \<lparr>bbox_x = 0, bbox_y = 0, bbox_w = 100, bbox_h = 20, bbox_pageIndex = pageIndex\<rparr>) \<and>
   (strategy1 (trim (substring fullText startIdx endIdx)) words pageIndex \<noteq> None \<or>
    strategy2 fullText startIdx endIdx words 0 [] \<noteq> [] \<longrightarrow>
      (\<exists>ws. ws \<noteq> [] \<and> set ws \<subseteq> set words \<and>
         mapTextToBBox startIdx endIdx fullText words pageIndex = mergeWordBBoxes ws pageIndex))"
proof (intro conjI impI)
  assume "strategy1 (trim (substring fullText startIdx endIdx)) words pageIndex = None \<and>
    strategy2 fullText startIdx endIdx words 0 [] = []"
  then show "mapTextToBBox startIdx endIdx fullText words pageIndex =
        \<lparr>bbox_x = 0, bbox_y = 0, bbox_w = 100, bbox_h = 20, bbox_pageIndex = pageIndex\<rparr>"
    by (simp add: mapTextToBBox_def)
next
  assume "strategy1 (trim (substring fullText startIdx endIdx)) words pageIndex \<noteq> None \<or>
    strategy2 fullText startIdx endIdx words 0 [] \<noteq> []"
  then show "\<exists>ws. ws \<noteq> [] \<and> set ws \<subseteq> set words \<and>
         mapTextToBBox startIdx endIdx fullText words pageIndex = mergeWordBBoxes ws pageIndex"
    by (rule mapTextToBBox_words)
qed

lemma sample_strategies_fail:
  "strategy1 (trim (substring ''abc'' 0 3)) [sample_word ''xyz'' 10 10] 0 = None \<and>
   strategy2 ''abc'' 0 3 [sample_word ''xyz'' 10 10] 0 [] = []"
  by code_simp

lemma sample_strategy_found:
  "strategy1 (trim (substring ''abc def'' 4 7)) [sample_word ''abc'' 10 10, sample_word ''def'' 60 10] 0
     \<noteq> None"
  by code_simp

theorem mapTextToBBox_fallback_witness:
  "strategy1 (trim (substring ''abc'' 0 3)) [sample_word ''xyz'' 10 10] 0 = None \<and>
   strategy2 ''abc'' 0 3 [sample_word ''xyz'' 10 10] 0 [] = [] \<and>
   mapTextToBBox 0 3 ''abc'' [sample_word ''xyz'' 10 10] 0 =
     \<lparr>bbox_x = 0, bbox_y = 0, bbox_w = 100, bbox_h = 20, bbox_pageIndex = 0\<rparr> \<and>
   strategy1 (trim (substring ''abc def'' 4 7)) [sample_word ''abc'' 10 10, sample_word ''def'' 60 10] 0
     \<noteq> None \<and>
   (\<exists>ws. ws \<noteq> [] \<and> set ws \<subseteq> set [sample_word ''abc'' 10 10, sample_word ''def'' 60 10] \<and>
      mapTextToBBox 4 7 ''abc def'' [sample_word ''abc'' 10 10, sample_word ''def'' 60 10] 0 =
        mergeWordBBoxes ws 0)"
  using mapTextToBBox_fallback [of "''abc''" 0 3 "[sample_word ''xyz'' 10 10]" 0]
    mapTextToBBox_fallback [of "''abc def''" 4 7 "[sample_word ''abc'' 10 10, sample_word ''def'' 60 10]" 0]
    sample_strategies_fail sample_strategy_found
  by blast

text \<open>
  Against the claim as written: for the text \<open>abc\<close> and the single OCR word \<open>xyz\<close> both
  strategies fail, and the box returned has width 100 and height 20, not zero.
\<close>

theorem mapTextToBBox_zero_size_counterexample:
  "strategy1 (trim (substring ''abc'' 0 3)) [sample_word ''xyz'' 10 10] 0 = None \<and>
   strategy2 ''abc'' 0 3 [sample_word ''xyz'' 10 10] 0 [] = [] \<and>
   bbox_w (mapTextToBBox 0 3 ''abc'' [sample_word ''xyz'' 10 10] 0) = 100 \<and>
   bbox_h (mapTextToBBox 0 3 ''abc'' [sample_word ''xyz'' 10 10] 0) = 20"
  by code_simp

section \<open>The legacy classifier path\<close>


lemma geminiItem_shape:
  assumes "geminiItem words page item seen ents = Inr (seen', ents')"
  shows "ents' = ents \<or>
    (\<exists>ty t b. ents' = ents @ [\<lparr>e_type = ty, e_value = trim t, e_confidence = 9/10,
        e_bbox = b, e_masked = True, e_layer = 2\<rparr>] \<and>
      findBBoxForString (trim t) words page = Some b)"
  using assms
  by (auto simp: geminiItem_def Let_def split: if_splits option.splits json.splits)

lemma geminiItem_inv:
  assumes "geminiItem words page item seen ents = Inr (seen', ents')"
    and "\<forall>e \<in> set ents. findBBoxForString (e_value e) words page = Some (e_bbox e)"
  shows "\<forall>e \<in> set ents'. findBBoxForString (e_value e) words page = Some (e_bbox e)"
  using geminiItem_shape [OF assms(1)] assms(2) by auto

lemma geminiLoop_inv:
  "geminiLoop words page items seen ents = Inr out \<Longrightarrow>
   (\<forall>e \<in> set ents. findBBoxForString (e_value e) words page = Some (e_bbox e)) \<Longrightarrow>
   (\<forall>e \<in> set out. findBBoxForString (e_value e) words page = Some (e_bbox e))"
proof (induction items arbitrary: seen ents)
  case Nil
  then show ?case by simp
next
  case (Cons item rest)
  from Cons.prems(1) obtain seen' ents' where
    it: "geminiItem words page item seen ents = Inr (seen', ents')"
    and lp: "geminiLoop words page rest seen' ents' = Inr out"
    by (auto split: sum.splits)
  from geminiItem_inv [OF it Cons.prems(2)] Cons.IH [OF lp] show ?case by blast
qed

lemma gemini_unaligned_single:
  assumes "t \<noteq> []" "findBBoxForString (trim t) words page = None"
  shows "runGeminiDetection_items words page [JObject [(''text'', JString t), (''category'', JString c)]] = Inr []"
  using assms by (simp add: runGeminiDetection_items_def geminiItem_def categoryArg_def Let_def)


text \<open>
  Claim C10. In the legacy classifier path, an item whose text \<open>findBBoxForString\<close> cannot
  align (the result is \<open>null\<close>) adds no entity: the loop goes on with the entities it had.
  Every entity of the result carries the box that \<open>findBBoxForString\<close> returned for its value,
  never a placeholder, so no entity of the result has the value of an item that cannot be
  aligned; a response with only such an item gives the empty list.
\<close>

theorem legacy_unaligned_dropped:
  "(getProp item ''text'' = Some (JString txt) \<and>
    findBBoxForString (trim txt) words pageIndex = None \<and>
    geminiItem words pageIndex item seenTexts entities = Inr (seenTexts', entities') \<longrightarrow>
      entities' = entities) \<and>
   (runGeminiDetection_items words pageIndex items = Inr result \<longrightarrow>
      (\<forall>e \<in> set result. findBBoxForString (e_value e) words pageIndex = Some (e_bbox e)) \<and>
      (findBBoxForString (trim txt) words pageIndex = None \<longrightarrow>
         (\<forall>e \<in> set result. e_value e \<noteq> trim txt))) \<and>
   (txt \<noteq> [] \<and> findBBoxForString (trim txt) words pageIndex = None \<longrightarrow>
      runGeminiDetection_items words pageIndex
        [JObject [(''text'', JString txt), (''category'', JString c)]] = Inr [])"
proof (intro conjI impI)
  assume "getProp item ''text'' = Some (JString txt) \<and>
    findBBoxForString (trim txt) words pageIndex = None \<and>
    geminiItem words pageIndex item seenTexts entities = Inr (seenTexts', entities')"
  then show "entities' = entities"
    by (auto simp: geminiItem_def Let_def split: if_splits option.splits)
next
  assume r: "runGeminiDetection_items words pageIndex items = Inr result"
  then show all: "\<forall>e \<in> set result. findBBoxForString (e_value e) words pageIndex = Some (e_bbox e)"
    using geminiLoop_inv [of words pageIndex items "[]" "[]" result]
    by (simp add: runGeminiDetection_items_def)
  assume "findBBoxForString (trim txt) words pageIndex = None"
  with all show "\<forall>e \<in> set result. e_value e \<noteq> trim txt" by auto
next
  assume "txt \<noteq> [] \<and> findBBoxForString (trim txt) words pageIndex = None"
  then show "runGeminiDetection_items words pageIndex
        [JObject [(''text'', JString txt), (''category'', JString c)]] = Inr []"
    by (simp add: gemini_unaligned_single)
qed

lemma sample_legacy_run:
  "runGeminiDetection_items sample_words 0
     [sample_item ''Jane Roe'' ''name'', sample_item ''Doe'' ''Name ''] =
   Inr [\<lparr>e_type = NAME, e_value = ''Doe'', e_confidence = 9/10,
         e_bbox = \<lparr>bbox_x = 10, bbox_y = 20, bbox_w = 40, bbox_h = 10, bbox_pageIndex = 0\<rparr>,
         e_masked = True, e_layer = 2\<rparr>]"
  "findBBoxForString (trim ''Jane Roe'') sample_words 0 = None"
  "getProp (sample_item ''Jane Roe'' ''name'') ''text'' = Some (JString ''Jane Roe'')"
  "geminiItem sample_words 0 (sample_item ''Jane Roe'' ''name'') [] [] = Inr ([''jane roe''], [])"
  by code_simp+

theorem legacy_unaligned_dropped_witness:
  "getProp (sample_item ''Jane Roe'' ''name'') ''text'' = Some (JString ''Jane Roe'') \<and>
   findBBoxForString (trim ''Jane Roe'') sample_words 0 = None \<and>
   geminiItem sample_words 0 (sample_item ''Jane Roe'' ''name'') [] [] = Inr ([''jane roe''], []) \<and>
   runGeminiDetection_items sample_words 0
     [sample_item ''Jane Roe'' ''name'', sample_item ''Doe'' ''Name ''] =
   Inr [\<lparr>e_type = NAME, e_value = ''Doe'', e_confidence = 9/10,
         e_bbox = \<lparr>bbox_x = 10, bbox_y = 20, bbox_w = 40, bbox_h = 10, bbox_pageIndex = 0\<rparr>,
         e_masked = True, e_layer = 2\<rparr>] \<and>
   \<not> (\<exists>e \<in> set [\<lparr>e_type = NAME, e_value = ''Doe'', e_confidence = 9/10,
         e_bbox = \<lparr>bbox_x = 10, bbox_y = 20, bbox_w = 40, bbox_h = 10, bbox_pageIndex = 0\<rparr>,
         e_masked = True, e_layer = 2\<rparr>]. e_value e = trim ''Jane Roe'') \<and>
   ''Jane Roe'' \<noteq> [] \<and>
   runGeminiDetection_items sample_words 0
     [JObject [(''text'', JString ''Jane Roe''), (''category'', JString ''name'')]] = Inr []"
proof -
  have n: "''Jane Roe'' \<noteq> []" by simp
  from legacy_unaligned_dropped [of "sample_item ''Jane Roe'' ''name''" "''Jane Roe''"
      sample_words 0 "[]" "[]" "[''jane roe'']" "[]"
      "[sample_item ''Jane Roe'' ''name'', sample_item ''Doe'' ''Name '']"
      "[\<lparr>e_type = NAME, e_value = ''Doe'', e_confidence = 9/10,
         e_bbox = \<lparr>bbox_x = 10, bbox_y = 20, bbox_w = 40, bbox_h = 10, bbox_pageIndex = 0\<rparr>,
         e_masked = True, e_layer = 2\<rparr>]" "''name''"]
    sample_legacy_run n
  show ?thesis by blast
qed

end
